theory Spec2Isabelle
  imports Main "HOL-Library.Sublist"
begin

chapter \<open>The model\<close>

section \<open>JavaScript values\<close>

text \<open>
  The server handles untyped JSON documents (\<open>request.body\<close>, the documents of the
  store). A value is one of the JavaScript kinds below; an object is the list of its
  own properties in the order \<open>Object.keys\<close> enumerates them. An \<open>ObjectId\<close> of the
  database driver is a value of its own, carrying its 24-digit lower-case hex string.
  A string is the list of its characters; the characters of the model are the UTF-16 code
  units below 256 (the characters of ISO 8859-1), a character being its code. A number is
  an integer.
\<close>

type_synonym oid = string

datatype val =
    VUndef
  | VNull
  | VBool bool
  | VNum int
  | VStr string
  | VId oid
  | VArr "val list"
  | VObj "(string \<times> val) list"

type_synonym doc = "(string \<times> val) list"

text \<open>JavaScript truthiness: \<open>if (v)\<close>, \<open>!v\<close>, \<open>v ? a : b\<close>.\<close>

fun truthy :: "val \<Rightarrow> bool" where
  "truthy VUndef = False"
| "truthy VNull = False"
| "truthy (VBool b) = b"
| "truthy (VNum n) = (n \<noteq> 0)"
| "truthy (VStr s) = (s \<noteq> [])"
| "truthy (VId h) = True"
| "truthy (VArr xs) = True"
| "truthy (VObj kvs) = True"

text \<open>\<open>obj[key]\<close> on an object: the value of the property, \<open>undefined\<close> when absent.\<close>

definition getp :: "doc \<Rightarrow> string \<Rightarrow> val" where
  "getp d k = (case map_of d k of Some v \<Rightarrow> v | None \<Rightarrow> VUndef)"

text \<open>
  \<open>v[key]\<close> on any value, for the property names the code reads (\<open>_id\<close>, \<open>value\<close>):
  reading a property of \<open>null\<close> or \<open>undefined\<close> raises a TypeError (\<open>None\<close>); strings,
  numbers, booleans, arrays and ObjectIds have no such property.
\<close>

fun read_prop :: "val \<Rightarrow> string \<Rightarrow> val option" where
  "read_prop VUndef k = None"
| "read_prop VNull k = None"
| "read_prop (VObj d) k = Some (getp d k)"
| "read_prop v k = Some VUndef"

text \<open>\<open>obj[key] = v\<close>: an existing property keeps its place, a new one is appended.\<close>

fun setp :: "(string \<times> 'a) list \<Rightarrow> string \<Rightarrow> 'a \<Rightarrow> (string \<times> 'a) list" where
  "setp [] k v = [(k, v)]"
| "setp ((k', v') # d) k v = (if k' = k then (k, v) # d else (k', v') # setp d k v)"

text \<open>\<open>delete obj[key]\<close>.\<close>

definition delp :: "doc \<Rightarrow> string \<Rightarrow> doc" where
  "delp d k = filter (\<lambda>kv. fst kv \<noteq> k) d"

text \<open>Object spread \<open>{ ...a, ...b }\<close>: the properties of \<open>b\<close> are written over a copy of \<open>a\<close>.\<close>

definition spread :: "doc \<Rightarrow> doc \<Rightarrow> doc" where
  "spread a b = foldl (\<lambda>acc kv. setp acc (fst kv) (snd kv)) a b"

text \<open>
  \<open>String.prototype.toLowerCase\<close> on the characters of the model: the letters \<open>A\<close> to
  \<open>Z\<close> and the capital letters of the Latin-1 range (codes \<open>0xC0\<close> to \<open>0xDE\<close>, without the
  multiplication sign \<open>0xD7\<close>) are mapped to the character 32 places up; every other
  character below 256 is its own lower case.
\<close>

definition capitals :: string where
  "capitals =
     ''ABCDEFGHIJKLMNOPQRSTUVWXYZ'' @
       [
        CHR 0xC0, CHR 0xC1, CHR 0xC2, CHR 0xC3, CHR 0xC4, CHR 0xC5, CHR 0xC6, CHR 0xC7,
        CHR 0xC8, CHR 0xC9, CHR 0xCA, CHR 0xCB, CHR 0xCC, CHR 0xCD, CHR 0xCE, CHR 0xCF,
        CHR 0xD0, CHR 0xD1, CHR 0xD2, CHR 0xD3, CHR 0xD4, CHR 0xD5, CHR 0xD6, CHR 0xD8,
        CHR 0xD9, CHR 0xDA, CHR 0xDB, CHR 0xDC, CHR 0xDD, CHR 0xDE]"

definition smalls :: string where
  "smalls =
     ''abcdefghijklmnopqrstuvwxyz'' @
       [
        CHR 0xE0, CHR 0xE1, CHR 0xE2, CHR 0xE3, CHR 0xE4, CHR 0xE5, CHR 0xE6, CHR 0xE7,
        CHR 0xE8, CHR 0xE9, CHR 0xEA, CHR 0xEB, CHR 0xEC, CHR 0xED, CHR 0xEE, CHR 0xEF,
        CHR 0xF0, CHR 0xF1, CHR 0xF2, CHR 0xF3, CHR 0xF4, CHR 0xF5, CHR 0xF6, CHR 0xF8,
        CHR 0xF9, CHR 0xFA, CHR 0xFB, CHR 0xFC, CHR 0xFD, CHR 0xFE]"

definition lower_char :: "char \<Rightarrow> char" where
  "lower_char c = (case map_of (zip capitals smalls) c of Some l \<Rightarrow> l | None \<Rightarrow> c)"

definition toLowerCase :: "string \<Rightarrow> string" where
  "toLowerCase s = map lower_char s"

section \<open>The driver's ObjectId\<close>

text \<open>
  \<open>ObjectId.isValid\<close>, \<open>new ObjectId(x)\<close> and \<open>toString\<close> belong to the database
  driver. An ObjectId is twelve bytes, printed as 24 lower-case hex digits. The driver's
  test accepts an ObjectId, a string of 24 hex digits (either case), a string of twelve
  characters (taken as the twelve bytes) and any number.
\<close>

definition is_hex :: "char \<Rightarrow> bool" where
  "is_hex c = (c \<in> set ''0123456789abcdefABCDEF'')"

definition hexdigit :: "nat \<Rightarrow> char" where
  "hexdigit n = ''0123456789abcdef'' ! (n mod 16)"

fun hexn :: "nat \<Rightarrow> nat \<Rightarrow> string" where
  "hexn 0 n = []"
| "hexn (Suc w) n = hexn w (n div 16) @ [hexdigit n]"

definition valid_id_string :: "string \<Rightarrow> bool" where
  "valid_id_string s = (length s = 12 \<or> (length s = 24 \<and> list_all is_hex s))"

definition id_of_string :: "string \<Rightarrow> oid" where
  "id_of_string s =
     (if length s = 12 then concat (map (\<lambda>c. hexn 2 (of_char c)) s) else toLowerCase s)"

fun ObjectId_isValid :: "val \<Rightarrow> bool" where
  "ObjectId_isValid (VId h) = True"
| "ObjectId_isValid (VStr s) = valid_id_string s"
| "ObjectId_isValid (VNum n) = True"
| "ObjectId_isValid v = False"

text \<open>
  \<open>new ObjectId()\<close>: the driver generates an identifier from the clock, the process and
  a counter of its own. The model numbers the generated identifiers with one counter,
  kept with the store, and the \<open>n\<close>-th identifier generated without an argument is
  \<open>mint n\<close>. \<open>new ObjectId(t)\<close> for a number \<open>t\<close> generates an identifier in the same
  way, with \<open>t\<close> in place of the clock: its first four bytes are \<open>t\<close> (modulo \<open>2^32\<close>).
\<close>

definition mint :: "nat \<Rightarrow> oid" where
  "mint n = hexn 24 n"

definition generate :: "int \<Rightarrow> nat \<Rightarrow> oid" where
  "generate t n = hexn 8 (nat (t mod 2 ^ 32)) @ hexn 16 n"

text \<open>
  \<open>new ObjectId(x)\<close> for an \<open>x\<close> that passed \<open>ObjectId.isValid\<close> (every call of the
  source comes after that test): the identifier, and the counter afterwards. An ObjectId
  or a string determines the identifier; a number has one generated, which advances the
  counter.
\<close>

fun newObjectId :: "val \<Rightarrow> nat \<Rightarrow> oid \<times> nat" where
  "newObjectId (VId h) c = (h, c)"
| "newObjectId (VStr s) c = (id_of_string s, c)"
| "newObjectId (VNum t) c = (generate t c, Suc c)"
| "newObjectId v c = ([], c)"

text \<open>A bare reference \<open>{ _id: ObjectId }\<close>.\<close>

definition ref :: "oid \<Rightarrow> val" where
  "ref h = VObj [(''_id'', VId h)]"

section \<open>Strings of values\<close>

text \<open>Decimal digits of a number, for \<open>toString\<close> and \<open>JSON.stringify\<close>.\<close>

fun show_nat :: "nat \<Rightarrow> string" where
  "show_nat n =
     (if n < 10 then [''0123456789'' ! n] else show_nat (n div 10) @ [''0123456789'' ! (n mod 10)])"

definition show_int :: "int \<Rightarrow> string" where
  "show_int i = (if i < 0 then CHR ''-'' # show_nat (nat (- i)) else show_nat (nat i))"

text \<open>\<open>xs.join(sep)\<close> on a list of strings.\<close>

fun join :: "string \<Rightarrow> string list \<Rightarrow> string" where
  "join sep [] = []"
| "join sep [x] = x"
| "join sep (x # y # ys) = x @ sep @ join sep (y # ys)"

text \<open>
  \<open>v.toString()\<close>. An ObjectId prints its hex string; an array joins its elements with
  commas, \<open>null\<close> and \<open>undefined\<close> elements printing as the empty string. On \<open>null\<close> and
  \<open>undefined\<close> themselves the call raises a TypeError: the callers below test
  \<open>nullish\<close> first.
\<close>

fun toString :: "val \<Rightarrow> string" and toString_elems :: "val list \<Rightarrow> string list" where
  "toString VUndef = []"
| "toString VNull = []"
| "toString (VBool b) = (if b then ''true'' else ''false'')"
| "toString (VNum n) = show_int n"
| "toString (VStr s) = s"
| "toString (VId h) = h"
| "toString (VArr xs) = join '','' (toString_elems xs)"
| "toString (VObj d) = ''[object Object]''"
| "toString_elems [] = []"
| "toString_elems (x # xs) = toString x # toString_elems xs"

definition nullish :: "val \<Rightarrow> bool" where
  "nullish v = (v = VNull \<or> v = VUndef)"

text \<open>\<open>String(v)\<close>, the coercion \<open>indexOf\<close> applies to its argument.\<close>

definition js_String :: "val \<Rightarrow> string" where
  "js_String v = (if v = VUndef then ''undefined'' else if v = VNull then ''null'' else toString v)"

text \<open>
  \<open>JSON.stringify\<close>. A string is quoted, with the quote, the backslash and the control
  characters escaped; an ObjectId serialises (through its \<open>toJSON\<close>) as its quoted hex
  string; an \<open>undefined\<close> array element prints \<open>null\<close> and an \<open>undefined\<close> property is
  left out.
\<close>

definition json_escape :: "char \<Rightarrow> string" where
  "json_escape c =
     (if c = CHR 0x22 then [CHR 0x5C, CHR 0x22]
      else if c = CHR 0x5C then [CHR 0x5C, CHR 0x5C]
      else if c = CHR 0x08 then [CHR 0x5C, CHR ''b'']
      else if c = CHR 0x0C then [CHR 0x5C, CHR ''f'']
      else if c = CHR 0x0A then [CHR 0x5C, CHR ''n'']
      else if c = CHR 0x0D then [CHR 0x5C, CHR ''r'']
      else if c = CHR 0x09 then [CHR 0x5C, CHR ''t'']
      else if (of_char c :: nat) < 32 then [CHR 0x5C, CHR ''u''] @ hexn 4 (of_char c)
      else [c])"

definition json_quote :: "string \<Rightarrow> string" where
  "json_quote s = [CHR 0x22] @ concat (map json_escape s) @ [CHR 0x22]"

fun stringify :: "val \<Rightarrow> string"
  and stringify_elems :: "val list \<Rightarrow> string list"
  and stringify_props :: "(string \<times> val) list \<Rightarrow> string list" where
  "stringify VUndef = ''null''"
| "stringify VNull = ''null''"
| "stringify (VBool b) = (if b then ''true'' else ''false'')"
| "stringify (VNum n) = show_int n"
| "stringify (VStr s) = json_quote s"
| "stringify (VId h) = json_quote h"
| "stringify (VArr xs) = ''['' @ join '','' (stringify_elems xs) @ '']''"
| "stringify (VObj d) = ''{'' @ join '','' (stringify_props d) @ ''}''"
| "stringify_elems [] = []"
| "stringify_elems (x # xs) = stringify x # stringify_elems xs"
| "stringify_props [] = []"
| "stringify_props (kv # d) =
     (if snd kv = VUndef then stringify_props d
      else (json_quote (fst kv) @ '':'' @ stringify (snd kv)) # stringify_props d)"

text \<open>\<open>hay.indexOf(needle) !== -1\<close>: \<open>needle\<close> occurs in \<open>hay\<close> as a substring.\<close>

definition str_includes :: "string \<Rightarrow> string \<Rightarrow> bool" where
  "str_includes hay needle = sublist needle hay"

section \<open>The store\<close>

text \<open>
  The accounts repository holds one \<open>ldap\<close> collection of account records
  (\<open>ILDAPData\<close>); \<open>data\<close> maps a collection name to the array of what the account
  owns. The objects repository maps a collection name to its documents, in the order
  \<open>find({})\<close> returns them. \<open>counter\<close> numbers the identifiers \<open>new ObjectId()\<close> has
  generated.
\<close>

record account =
  acc_id :: oid
  username :: string
  sessionID :: string
  fullname :: string
  role :: string
  data :: "(string \<times> val list) list"

record state =
  objects :: "string \<Rightarrow> doc list"
  accounts :: "account list"
  counter :: nat

text \<open>\<open>getCurrentUserBySession = sessionID => ldap().findOne({ sessionID })\<close>.\<close>

definition getCurrentUserBySession :: "state \<Rightarrow> string \<Rightarrow> account option" where
  "getCurrentUserBySession st sid = find (\<lambda>a. sessionID a = sid) (accounts st)"

text \<open>\<open>ldap().updateOne({ sessionID }, { $set: { data } })\<close>: the first match is updated.\<close>

fun updateOne_data :: "string \<Rightarrow> (string \<times> val list) list \<Rightarrow> account list \<Rightarrow> account list" where
  "updateOne_data sid d [] = []"
| "updateOne_data sid d (a # as) =
     (if sessionID a = sid then a\<lparr>data := d\<rparr> # as else a # updateOne_data sid d as)"

text \<open>\<open>getAllItemsOfCollection = collection => ...collection(collection).find({}).toArray()\<close>.\<close>

definition getAllItemsOfCollection :: "state \<Rightarrow> string \<Rightarrow> doc list" where
  "getAllItemsOfCollection st c = objects st c"

text \<open>\<open>collection.findOne({ _id })\<close>: the first document whose \<open>_id\<close> is that value.\<close>

definition findOne :: "doc list \<Rightarrow> val \<Rightarrow> doc option" where
  "findOne ds i = find (\<lambda>d. map_of d ''_id'' = Some i) ds"

text \<open>\<open>collection.deleteOne({ _id })\<close>: the first match is removed.\<close>

fun deleteOne :: "doc list \<Rightarrow> val \<Rightarrow> doc list" where
  "deleteOne [] i = []"
| "deleteOne (d # ds) i = (if map_of d ''_id'' = Some i then ds else d # deleteOne ds i)"

section \<open>The resolver (\<open>Mongo.resolve\<close>)\<close>

text \<open>
  The shape tests \<open>isDigitalObject\<close>, \<open>isModel\<close>, \<open>isCompilation\<close> (\<open>./typeguards\<close>) and
  the expansion rules \<open>resolveDigitalObject\<close>, \<open>resolveModel\<close>, \<open>resolveCompilation\<close>
  (\<open>./resolving-strategies\<close>) are imported by the source file and are parameters here.
\<close>

record strategies =
  isDigitalObject :: "val \<Rightarrow> bool"
  isModel :: "val \<Rightarrow> bool"
  isCompilation :: "val \<Rightarrow> bool"
  resolveDigitalObject :: "state \<Rightarrow> val \<Rightarrow> val"
  resolveModel :: "state \<Rightarrow> val \<Rightarrow> val"
  resolveCompilation :: "state \<Rightarrow> val \<Rightarrow> val"

text \<open>
  \<open>findOne({ $or: [ { _id }, { _id: _id.toString() } ] })\<close>; \<open>null\<close> when no document
  matches.
\<close>

definition findOne_resolve :: "doc list \<Rightarrow> oid \<Rightarrow> val" where
  "findOne_resolve ds h =
     (case find (\<lambda>d. map_of d ''_id'' = Some (VId h) \<or> map_of d ''_id'' = Some (VStr h)) ds of
        Some d \<Rightarrow> VObj d | None \<Rightarrow> VNull)"

text \<open>
  \<open>depth\<close> is the optional third argument (\<open>None\<close> when omitted). The guard of the
  source is \<open>if (depth && depth === 0) return resolve_result\<close>. The result is the value
  the promise resolves to. (A read returns no store: the driver's counter, which a
  numeric identifier advances, is threaded by the writes only.)
\<close>

definition resolve :: "strategies \<Rightarrow> state \<Rightarrow> val \<Rightarrow> string \<Rightarrow> int option \<Rightarrow> val" where
  "resolve S st obj collection_name depth =
     (if \<not> truthy obj then VUndef
      else
        let parsedId = (case read_prop obj ''_id'' of
                          Some i \<Rightarrow> if truthy i then i else obj
                        | None \<Rightarrow> obj)
        in if \<not> ObjectId_isValid parsedId then VUndef
           else
             let resolve_result = findOne_resolve (objects st collection_name)
                                    (fst (newObjectId parsedId (counter st)))
             in if (case depth of None \<Rightarrow> False | Some n \<Rightarrow> truthy (VNum n) \<and> n = 0)
                then resolve_result
                else if isDigitalObject S resolve_result then resolveDigitalObject S st resolve_result
                else if isModel S resolve_result then resolveModel S st resolve_result
                else if isCompilation S resolve_result then resolveCompilation S st resolve_result
                else resolve_result)"

section \<open>Ownership (\<open>Mongo.isUserOwnerOfObject\<close>, \<open>Mongo.insertCurrentUserData\<close>)\<close>

definition data_val :: "(string \<times> val list) list \<Rightarrow> val" where
  "data_val d = VObj (map (\<lambda>kv. (fst kv, VArr (snd kv))) d)"

definition isUserOwnerOfObject :: "state \<Rightarrow> string \<Rightarrow> val \<Rightarrow> bool" where
  "isUserOwnerOfObject st sid identifier =
     (let ident = (if ObjectId_isValid identifier
                   then VId (fst (newObjectId identifier (counter st))) else identifier);
          userData = getCurrentUserBySession st sid
      in str_includes
           (stringify (case userData of Some u \<Rightarrow> data_val (data u) | None \<Rightarrow> VStr []))
           (js_String ident))"

text \<open>
  \<open>insertCurrentUserData(request, identifier, collection)\<close>. \<open>ack\<close> is whether the
  store acknowledges the update (\<open>updateResult.result.ok === 1\<close>). The result is the
  returned boolean and the store afterwards.
\<close>

definition insertCurrentUserData ::
    "bool \<Rightarrow> state \<Rightarrow> string \<Rightarrow> val \<Rightarrow> string \<Rightarrow> bool \<times> state" where
  "insertCurrentUserData ack st sid identifier collection =
     (case getCurrentUserBySession st sid of
        None \<Rightarrow> (False, st)
      | Some userData \<Rightarrow>
          if \<not> ObjectId_isValid identifier then (False, st)
          else
            let arr = (case map_of (data userData) collection of Some xs \<Rightarrow> xs | None \<Rightarrow> []);
                doesExist = find (\<lambda>obj. toString obj = toString identifier) (filter truthy arr)
            in if doesExist \<noteq> None then (True, st)
               else
                 let (h, c) = newObjectId identifier (counter st);
                     st1 = st\<lparr>counter := c\<rparr>
                 in if ack
                    then (True, st1\<lparr>accounts := updateOne_data sid
                             (setp (data userData) collection (arr @ [VId h]))
                             (accounts st1)\<rparr>)
                    else (False, st1))"


section \<open>Reads (\<open>Mongo.getObjectFromCollection\<close>, \<open>Mongo.getAllObjectsFromCollection\<close>)\<close>

text \<open>\<open>v[key]\<close> on a value known not to be \<open>null\<close> or \<open>undefined\<close>.\<close>

definition js_get :: "val \<Rightarrow> string \<Rightarrow> val" where
  "js_get v k = (case read_prop v k of Some x \<Rightarrow> x | None \<Rightarrow> VUndef)"

text \<open>
  \<open>v.length\<close>: the length of a string or an array, the own property of an object,
  \<open>undefined\<close> on the other values.
\<close>

fun js_length :: "val \<Rightarrow> val" where
  "js_length (VStr s) = VNum (int (length s))"
| "js_length (VArr xs) = VNum (int (length xs))"
| "js_length (VObj d) = getp d ''length''"
| "js_length v = VUndef"

text \<open>
  \<open>x > 0\<close> for the values \<open>v.length\<close> takes on documents of this store: a number
  compares as it is, \<open>true\<close> as 1, \<open>undefined\<close> and \<open>null\<close> are not greater than 0.
  (A password object whose own \<open>length\<close> is a string, an array or an object would be
  coerced to a number first; such passwords are outside the model.)
\<close>

fun gt_zero :: "val \<Rightarrow> bool" where
  "gt_zero (VNum n) = (0 < n)"
| "gt_zero (VBool b) = b"
| "gt_zero v = False"

text \<open>
  \<open>{ status: 'ok', ...object }\<close>: the own properties of the resolved document are
  spread over the status (a resolved document is an object).
\<close>

fun own_props :: "val \<Rightarrow> doc" where
  "own_props (VObj d) = d"
| "own_props v = []"

definition ok_body :: "val \<Rightarrow> val" where
  "ok_body v = VObj (spread [(''status'', VStr ''ok'')] (own_props v))"

definition protected_marker :: val where
  "protected_marker =
     VObj [(''status'', VStr ''ok''), (''message'', VStr ''Password protected compilation'')]"

definition not_found :: "string \<Rightarrow> val" where
  "not_found c =
     VObj [(''status'', VStr ''error''),
           (''message'', VStr (''No '' @ c @ '' found with given identifier''))]"

text \<open>
  \<open>ObjectId.isValid(p) ? new ObjectId(p) : p\<close> for a route parameter \<open>p\<close>, which is a
  string: \<open>new ObjectId(p)\<close> is then the ObjectId \<open>id_of_string p\<close>.
\<close>

definition param_id :: "string \<Rightarrow> val" where
  "param_id p = (if ObjectId_isValid (VStr p) then VId (id_of_string p) else VStr p)"

text \<open>
  \<open>getObjectFromCollection(request, response)\<close>: \<open>sid\<close> is \<open>request.sessionID\<close>, the
  route parameters are \<open>collection\<close>, \<open>identifier\<close> and the optional \<open>password\<close>. The
  result is what \<open>response.send\<close> receives.
\<close>

definition getObjectFromCollection ::
    "strategies \<Rightarrow> state \<Rightarrow> string \<Rightarrow> string \<Rightarrow> string \<Rightarrow> string option \<Rightarrow> val" where
  "getObjectFromCollection S st sid collection identifier password_param =
     (let RequestCollection = toLowerCase collection;
          ident = param_id identifier;
          password = (case password_param of Some p \<Rightarrow> if p \<noteq> [] then p else [] | None \<Rightarrow> []);
          object = resolve S st ident RequestCollection None
      in if \<not> truthy object then not_found RequestCollection
         else if isCompilation S object then
           let pw = js_get object ''password'';
               isPasswordProtected = (truthy pw \<and> gt_zero (js_length pw));
               isUserOwner = isUserOwnerOfObject st sid ident;
               isPasswordCorrect = (truthy pw \<and> pw = VStr password)
           in if \<not> isPasswordProtected \<or> isUserOwner \<or> isPasswordCorrect
              then ok_body object
              else protected_marker
         else ok_body object)"

text \<open>
  The filter of the fetch-all read, named \<open>isPasswordProtected\<close> in the source:
  \<open>!c.password || (c.password && c.password.length === 0)\<close>.
\<close>

definition isPasswordProtected_filter :: "val \<Rightarrow> bool" where
  "isPasswordProtected_filter compilation =
     (let pw = js_get compilation ''password''
      in \<not> truthy pw \<or> (truthy pw \<and> js_length pw = VNum 0))"

definition getAllObjectsFromCollection :: "strategies \<Rightarrow> state \<Rightarrow> string \<Rightarrow> val list" where
  "getAllObjectsFromCollection S st collection =
     (let RequestCollection = toLowerCase collection;
          results = map (\<lambda>d. resolve S st (VObj d) RequestCollection None)
                        (getAllItemsOfCollection st RequestCollection);
          results = filter truthy results
      in case results of
           [] \<Rightarrow> results
         | first # _ \<Rightarrow>
             if isCompilation S first then filter isPasswordProtected_filter results
             else results)"

section \<open>Deletion (\<open>Mongo.removeObjectFromCollection\<close>)\<close>

definition username_mismatch :: val where
  "username_mismatch =
     VObj [(''status'', VStr ''error''),
           (''message'', VStr ''Input username does not match username with current sessionID'')]"

definition not_owned :: val where
  "not_owned =
     VObj [(''status'', VStr ''error''),
           (''message'',
            VStr ''Object with identifier does not belong to account with this sessionID'')]"

definition status_ok :: val where
  "status_ok = VObj [(''status'', VStr ''ok'')]"

definition status_error :: val where
  "status_error = VObj [(''status'', VStr ''error'')]"

text \<open>\<open>id !== s\<close> for a string \<open>s\<close>: strict inequality, so only the string \<open>s\<close> itself is equal.\<close>

definition strict_neq :: "val \<Rightarrow> string \<Rightarrow> bool" where
  "strict_neq v s = (v \<noteq> VStr s)"

text \<open>
  \<open>removeObjectFromCollection(request, response)\<close>. \<open>ack_delete\<close> and \<open>ack_update\<close> are
  whether the store acknowledges the two writes (\<open>result.ok === 1\<close>); \<open>body_username\<close>
  is \<open>request.body.username\<close> (empty when absent). The result is the response sent
  (\<open>None\<close> when a TypeError ends the handler before it responds) and the store
  afterwards.
\<close>

definition removeObjectFromCollection ::
    "bool \<Rightarrow> bool \<Rightarrow> state \<Rightarrow> string \<Rightarrow> string \<Rightarrow> string \<Rightarrow> string \<Rightarrow> val option \<times> state" where
  "removeObjectFromCollection ack_delete ack_update st sid collection identifier_param body_username =
     (let RequestCollection = toLowerCase collection;
          identifier = param_id identifier_param
      in case getCurrentUserBySession st sid of
           None \<Rightarrow> (Some username_mismatch, st)
         | Some find_result \<Rightarrow>
             if username find_result = [] \<or> body_username = []
                \<or> body_username \<noteq> username find_result
             then (Some username_mismatch, st)
             else
               let all_refs = concat (map snd (data find_result))
               in if list_ex nullish all_refs then (None, st)
                  else
                    let UserRelatedObjects = map toString all_refs
                    in case find (\<lambda>obj. obj = toString identifier) UserRelatedObjects of
                         None \<Rightarrow> (Some not_owned, st)
                       | Some found \<Rightarrow>
                           if found = [] then (Some not_owned, st)
                           else if \<not> ack_delete then (Some status_error, st)
                           else
                             let st1 = st\<lparr>objects := (objects st)
                                   (RequestCollection :=
                                      deleteOne (objects st RequestCollection) identifier)\<rparr>
                             in case map_of (data find_result) RequestCollection of
                                  None \<Rightarrow> (None, st1)
                                | Some owned \<Rightarrow>
                                    let data' = setp (data find_result) RequestCollection
                                          (filter (\<lambda>i. strict_neq i (toString identifier)) owned)
                                    in if ack_update
                                       then (Some status_ok,
                                             st1\<lparr>accounts := updateOne_data sid data' (accounts st1)\<rparr>)
                                       else (Some status_error, st1))"

section \<open>Shape tests and expansion rules\<close>

text \<open>
  Modelled from the spec: the shape tests of \<open>./typeguards\<close> and the expansion rules
  of \<open>./resolving-strategies\<close>, which the source imports and which are not among the
  source files. Section 4.3: the kind of a stored document is decided by the presence of
  a required field; a DigitalObject is returned as it is; a Model has its
  \<open>relatedDigitalObject\<close> reference expanded one level by the DigitalObject rule; a
  Compilation has every entry of \<open>models\<close> expanded by the Model rule, in array order.
  The required fields taken here are \<open>digobj_title\<close>, \<open>relatedDigitalObject\<close> and
  \<open>models\<close>, fields the source writes when it creates a document of each kind.
\<close>

definition has_field :: "string \<Rightarrow> val \<Rightarrow> bool" where
  "has_field k v = (case v of VObj d \<Rightarrow> getp d k \<noteq> VUndef | _ \<Rightarrow> False)"

definition lookup_ref :: "state \<Rightarrow> string \<Rightarrow> val \<Rightarrow> val" where
  "lookup_ref st c r =
     (if \<not> nullish r \<and> ObjectId_isValid (js_get r ''_id'')
      then findOne_resolve (objects st c) (fst (newObjectId (js_get r ''_id'') (counter st)))
      else VNull)"

definition expand_digitalobject :: "state \<Rightarrow> val \<Rightarrow> val" where
  "expand_digitalobject st d = d"

definition expand_model :: "state \<Rightarrow> val \<Rightarrow> val" where
  "expand_model st m =
     (case m of
        VObj d \<Rightarrow>
          (let found = lookup_ref st ''digitalobject'' (getp d ''relatedDigitalObject'')
           in if found = VNull then m
              else VObj (setp d ''relatedDigitalObject'' (expand_digitalobject st found)))
      | _ \<Rightarrow> m)"

definition expand_entry :: "state \<Rightarrow> val \<Rightarrow> val" where
  "expand_entry st r =
     (let found = lookup_ref st ''model'' r
      in if found = VNull then r else expand_model st found)"

definition expand_compilation :: "state \<Rightarrow> val \<Rightarrow> val" where
  "expand_compilation st c =
     (case c of
        VObj d \<Rightarrow>
          (case getp d ''models'' of
             VArr ms \<Rightarrow> VObj (setp d ''models'' (VArr (map (expand_entry st) ms)))
           | _ \<Rightarrow> c)
      | _ \<Rightarrow> c)"

definition by_shape :: strategies where
  "by_shape =
     \<lparr> isDigitalObject = has_field ''digobj_title'',
       isModel = has_field ''relatedDigitalObject'',
       isCompilation = has_field ''models'',
       resolveDigitalObject = expand_digitalobject,
       resolveModel = expand_model,
       resolveCompilation = expand_compilation \<rparr>"


section \<open>The normalizer (\<open>addAndGetId\<close> in \<open>submit\<close>)\<close>

text \<open>
  \<open>flatten\<close> (the npm package of that name, called with one argument): nested arrays are
  flattened at every depth, other values are kept.
\<close>

fun flatten :: "val \<Rightarrow> val list" and flatten_list :: "val list \<Rightarrow> val list" where
  "flatten (VArr xs) = flatten_list xs"
| "flatten VUndef = [VUndef]"
| "flatten VNull = [VNull]"
| "flatten (VBool b) = [VBool b]"
| "flatten (VNum n) = [VNum n]"
| "flatten (VStr s) = [VStr s]"
| "flatten (VId h) = [VId h]"
| "flatten (VObj d) = [VObj d]"
| "flatten_list [] = []"
| "flatten_list (x # xs) = flatten x @ flatten_list xs"

text \<open>
  \<open>Array.from(new Set(xs))\<close>: a value is kept at its first occurrence. A \<open>Set\<close> compares
  primitives by value and objects by identity (two object elements of one list are taken
  to be different objects).
\<close>

fun primitive :: "val \<Rightarrow> bool" where
  "primitive (VId h) = False"
| "primitive (VArr xs) = False"
| "primitive (VObj d) = False"
| "primitive v = True"

definition same_value :: "val \<Rightarrow> val \<Rightarrow> bool" where
  "same_value a b = (primitive a \<and> a = b)"

fun from_Set_loop :: "val list \<Rightarrow> val list \<Rightarrow> val list" where
  "from_Set_loop seen [] = seen"
| "from_Set_loop seen (x # xs) =
     (if list_ex (same_value x) seen then from_Set_loop seen xs
      else from_Set_loop (seen @ [x]) xs)"

definition from_Set :: "val list \<Rightarrow> val list" where
  "from_Set xs = from_Set_loop [] xs"

text \<open>
  \<open>collection.updateOne({ _id }, { $set: field, $setOnInsert: { _id } }, { upsert: true })\<close>:
  the first document with that \<open>_id\<close> has the fields of \<open>field\<close> set; when there is none,
  a document of \<open>_id\<close> and those fields is inserted.
\<close>

fun updateOne_set :: "doc list \<Rightarrow> oid \<Rightarrow> doc \<Rightarrow> doc list option" where
  "updateOne_set [] h field = None"
| "updateOne_set (d # ds) h field =
     (if map_of d ''_id'' = Some (VId h) then Some (spread d field # ds)
      else (case updateOne_set ds h field of None \<Rightarrow> None | Some ds' \<Rightarrow> Some (d # ds')))"

definition upsert :: "doc list \<Rightarrow> oid \<Rightarrow> doc \<Rightarrow> doc list" where
  "upsert ds h field =
     (case updateOne_set ds h field of
        Some ds' \<Rightarrow> ds'
      | None \<Rightarrow> ds @ [(''_id'', VId h) # field])"

text \<open>
  The role block of \<open>addAndGetId\<close> reads and writes \<open>field['roles'][key]\<close>, where the
  key \<open>_digId\<close> is the hex string of the owning document's ObjectId (never an index or
  a built-in property of an array). On a plain object this is a property of the role
  map. An array and an ObjectId are objects as well: a write attaches the property to
  the object in memory, and the store does not keep it when it serialises the value.
  \<open>extra\<close> holds the properties attached in this way, so the block works on the pair of
  \<open>field\<close> and \<open>extra\<close>, and only \<open>field\<close> is stored.
\<close>

fun is_object :: "val \<Rightarrow> bool" where
  "is_object (VObj d) = True"
| "is_object (VArr xs) = True"
| "is_object (VId h) = True"
| "is_object v = False"

definition roles_get :: "doc \<times> doc \<Rightarrow> string \<Rightarrow> val" where
  "roles_get fe k = (case getp (fst fe) ''roles'' of VObj r \<Rightarrow> getp r k | _ \<Rightarrow> getp (snd fe) k)"

definition roles_set :: "doc \<times> doc \<Rightarrow> string \<Rightarrow> val \<Rightarrow> doc \<times> doc" where
  "roles_set fe k v =
     (case getp (fst fe) ''roles'' of
        VObj r \<Rightarrow> (setp (fst fe) ''roles'' (VObj (setp r k v)), snd fe)
      | _ \<Rightarrow> (fst fe, setp (snd fe) k v))"

text \<open>
  One pass of the loop \<open>for (const prop of ['institution_role', 'person_role'])\<close>:
  \<open>if (!field[prop]) continue;
    field[prop] = new_roles ? new_roles : field[prop];
    field['roles'][_digId] = doRolesExist ? flatten([field['roles'][_digId], field[prop]])
                                          : flatten([field[prop]]);
    field['roles'][_digId] = Array.from(new Set(field['roles'][_digId]));
    field[prop] = [];\<close>
\<close>

definition role_step :: "string \<Rightarrow> val \<Rightarrow> bool \<Rightarrow> doc \<times> doc \<Rightarrow> string \<Rightarrow> doc \<times> doc" where
  "role_step digId new_roles doRolesExist fe p =
     (if \<not> truthy (getp (fst fe) p) then fe
      else
        let fp = (if truthy new_roles then new_roles else getp (fst fe) p);
            merged = (if doRolesExist then flatten_list [roles_get fe digId, fp]
                      else flatten_list [fp]);
            fe1 = roles_set fe digId (VArr (from_Set merged))
        in (setp (fst fe1) p (VArr []), snd fe1))"

text \<open>
  The block as a whole, run for the \<open>person\<close> and \<open>institution\<close> collections:
  \<open>const doRolesExist = (field['roles'] !== undefined);
    field['roles'] = doRolesExist ? field['roles'] : {};
    field['roles'][_digId] = field['roles'][_digId] ? field['roles'][_digId] : [];\<close>
  and the loop. \<open>field['roles'][_digId] = ...\<close> needs \<open>roles\<close> to be an object: on \<open>null\<close>
  the read raises a TypeError, on a string, a number or a boolean the write does
  (the module is compiled as strict code); \<open>None\<close> is the raise.
\<close>

definition addRoles :: "string \<Rightarrow> val \<Rightarrow> doc \<Rightarrow> (doc \<times> doc) option" where
  "addRoles digId new_roles field =
     (let doRolesExist = (getp field ''roles'' \<noteq> VUndef);
          field0 = (if doRolesExist then field else setp field ''roles'' (VObj []))
      in if \<not> is_object (getp field0 ''roles'') then None
         else
           let own = roles_get (field0, []) digId;
               fe1 = roles_set (field0, []) digId (if truthy own then own else VArr [])
           in Some (foldl (role_step digId new_roles doRolesExist) fe1
                      [''institution_role'', ''person_role'']))"

text \<open>
  \<open>if (field['roles'] && field['roles'][_digId])
      field['roles'][_digId] = field['roles'][_digId].filter(obj => obj)\<close>, run for every
  collection; a truthy entry that is not an array has no \<open>filter\<close> (TypeError).
\<close>

definition dropNullRoles :: "string \<Rightarrow> doc \<times> doc \<Rightarrow> (doc \<times> doc) option" where
  "dropNullRoles digId fe =
     (if \<not> truthy (getp (fst fe) ''roles'') then Some fe
      else if \<not> truthy (roles_get fe digId) then Some fe
      else (case roles_get fe digId of
              VArr xs \<Rightarrow> Some (roles_set fe digId (VArr (filter truthy xs)))
            | _ \<Rightarrow> None))"

text \<open>
  \<open>const isIdValid = ObjectId.isValid(field['_id']);
    const _id = isIdValid ? new ObjectId(field['_id']) : new ObjectId()\<close>: the identifier
  and the counter afterwards.
\<close>

definition chooseId :: "val \<Rightarrow> nat \<Rightarrow> oid \<times> nat" where
  "chooseId i c = (if ObjectId_isValid i then newObjectId i c else (mint c, Suc c))"

text \<open>
  \<open>const findResult = await coll.findOne({ _id });
    if (findResult) field = { ...findResult, ...field };\<close>
\<close>

definition loadExisting :: "doc list \<Rightarrow> oid \<Rightarrow> doc \<Rightarrow> doc" where
  "loadExisting ds h field =
     (case findOne ds (VId h) of
        Some findResult \<Rightarrow> spread findResult field
      | None \<Rightarrow> field)"

text \<open>
  \<open>addAndGetId\<close> after the nested institutions of a person have been handled. The
  result is the store afterwards and the reference \<open>{ _id: resultId }\<close>; \<open>None\<close> when the
  call raises. The store acknowledges the upsert.
\<close>

definition addAndGetId_body ::
    "state \<Rightarrow> string \<Rightarrow> doc \<Rightarrow> string \<Rightarrow> val \<Rightarrow> (state \<times> val) option" where
  "addAndGetId_body st digId in_field add_to_coll new_roles =
     (let isPersonOrInstitution = (add_to_coll \<in> set [''person'', ''institution'']);
          isIdValid = ObjectId_isValid (getp in_field ''_id'');
          (h, c) = chooseId (getp in_field ''_id'') (counter st);
          field = (if isIdValid then loadExisting (objects st add_to_coll) h in_field
                   else in_field)
      in case (if isPersonOrInstitution then addRoles digId new_roles field
               else Some (field, [])) of
           None \<Rightarrow> None
         | Some fe2 \<Rightarrow>
             (case dropNullRoles digId fe2 of
                None \<Rightarrow> None
              | Some fe3 \<Rightarrow>
                  Some (st\<lparr>counter := c,
                           objects := (objects st)
                             (add_to_coll :=
                                upsert (objects st add_to_coll) h (delp (fst fe3) ''_id''))\<rparr>,
                        ref h)))"

text \<open>
  \<open>data[i]\<close> and \<open>data[i] = v\<close> for the value of \<open>person['person_institution_data']\<close>
  and a loop index \<open>i\<close>: an element of an array, or the property named by the index on a
  plain object. (On \<open>null\<close> and \<open>undefined\<close> the read raises; a string, a number or a
  boolean yields no object. Both end the call below, as \<open>undefined\<close> does.)
\<close>

fun data_entry :: "val \<Rightarrow> nat \<Rightarrow> val" where
  "data_entry (VArr ds) i = (if i < length ds then ds ! i else VUndef)"
| "data_entry (VObj dd) i = getp dd (show_nat i)"
| "data_entry v i = VUndef"

fun data_put :: "val \<Rightarrow> nat \<Rightarrow> val \<Rightarrow> val" where
  "data_put (VArr ds) i v = VArr (ds[i := v])"
| "data_put (VObj dd) i v = VObj (setp dd (show_nat i) v)"
| "data_put d i v = d"

text \<open>
  \<open>addNestedInstitution\<close>: the loop over \<open>person['person_institution']\<close>, \<open>i\<close> the index.
  An entry whose \<open>value\<close> is \<open>add_new_institution\<close> has the payload at
  \<open>person['person_institution_data'][i]\<close> normalized as an institution and replaced by
  the reference. Reading \<open>value\<close> of a \<open>null\<close> entry raises, and so does a payload that
  is not a plain object (\<open>undefined\<close> and \<open>null\<close> at \<open>field['_id']\<close>, a string, a number
  or a boolean at the write to \<open>roles\<close>, an array or an ObjectId in the store, which
  refuses it as the operand of \<open>$set\<close>).
\<close>

fun nestedInstitutions ::
    "string \<Rightarrow> val list \<Rightarrow> nat \<Rightarrow> state \<Rightarrow> doc \<Rightarrow> (state \<times> doc) option" where
  "nestedInstitutions digId [] i st person = Some (st, person)"
| "nestedInstitutions digId (e # es) i st person =
     (case read_prop e ''value'' of
        None \<Rightarrow> None
      | Some v \<Rightarrow>
          if v \<noteq> VStr ''add_new_institution'' then nestedInstitutions digId es (Suc i) st person
          else
            (case data_entry (getp person ''person_institution_data'') i of
               VObj institution \<Rightarrow>
                 (case addAndGetId_body st digId institution ''institution'' VUndef of
                    None \<Rightarrow> None
                  | Some (st', newInst) \<Rightarrow>
                      nestedInstitutions digId es (Suc i) st'
                        (setp person ''person_institution_data''
                           (data_put (getp person ''person_institution_data'') i newInst)))
             | _ \<Rightarrow> None))"

definition addNestedInstitution :: "state \<Rightarrow> string \<Rightarrow> doc \<Rightarrow> (state \<times> doc) option" where
  "addNestedInstitution st digId person =
     (if \<not> truthy (getp person ''person_institution'') then Some (st, person)
      else (case getp person ''person_institution'' of
              VArr es \<Rightarrow> nestedInstitutions digId es 0 st person
            | _ \<Rightarrow> Some (st, person)))"

definition addAndGetId ::
    "state \<Rightarrow> string \<Rightarrow> doc \<Rightarrow> string \<Rightarrow> val \<Rightarrow> (state \<times> val) option" where
  "addAndGetId st digId in_field add_to_coll new_roles =
     (if add_to_coll = ''person''
      then (case addNestedInstitution st digId in_field of
              None \<Rightarrow> None
            | Some (st1, field) \<Rightarrow> addAndGetId_body st1 digId field add_to_coll new_roles)
      else addAndGetId_body st digId in_field add_to_coll new_roles)"


section \<open>Reconciliation of reference arrays (\<open>concatFix\<close> in \<open>submit\<close>)\<close>

text \<open>
  \<open>[].concat(x)\<close> and \<open>result.concat(x)\<close>: an array argument contributes its elements,
  any other value (also \<open>undefined\<close>) is appended as one element.
\<close>

fun concat_arg :: "val \<Rightarrow> val list" where
  "concat_arg (VArr xs) = xs"
| "concat_arg v = [v]"

text \<open>
  \<open>let result = [].concat(arr[0]); for (i = 1; ...) result = result.concat(arr[i])\<close>.
  With no argument at all \<open>arr[0]\<close> is \<open>undefined\<close>.
\<close>

fun concat_args :: "val list \<Rightarrow> val list" where
  "concat_args [] = [VUndef]"
| "concat_args (a # as) = concat (map concat_arg (a # as))"

text \<open>
  \<open>filterObjectsWithoutID = obj => ObjectId.isValid(obj._id)\<close>, applied by
  \<open>result.filter\<close>; an element that is \<open>null\<close> or \<open>undefined\<close> raises a TypeError,
  which ends the call.
\<close>

fun filterObjectsWithoutID :: "val list \<Rightarrow> val list option" where
  "filterObjectsWithoutID [] = Some []"
| "filterObjectsWithoutID (x # xs) =
     (case read_prop x ''_id'' of
        None \<Rightarrow> None
      | Some i \<Rightarrow>
          (case filterObjectsWithoutID xs of
             None \<Rightarrow> None
           | Some ys \<Rightarrow> Some (if ObjectId_isValid i then x # ys else ys)))"

text \<open>\<open>res._id\<close> of an element that passed the filter.\<close>

definition entry_id :: "val \<Rightarrow> val" where
  "entry_id e = (case read_prop e ''_id'' of Some i \<Rightarrow> i | None \<Rightarrow> VUndef)"

text \<open>
  The loop over \<open>result\<close>:
  \<open>const obj = { _id: new ObjectId(res._id) };
    const filtered = final.filter(_obj => _obj._id.toString() === obj._id.toString());
    if (filtered.length === 0) final.push(obj);\<close>
  \<open>c\<close> is the driver's counter; the result is \<open>final\<close> and the counter afterwards.
\<close>

fun concatFix_loop :: "val list \<Rightarrow> val list \<Rightarrow> nat \<Rightarrow> val list \<times> nat" where
  "concatFix_loop final [] c = (final, c)"
| "concatFix_loop final (res # rest) c =
     (let obj = VObj [(''_id'', VId (fst (newObjectId (entry_id res) c)))];
          filtered = filter (\<lambda>f. toString (entry_id f) = toString (entry_id obj)) final
      in concatFix_loop (if length filtered = 0 then final @ [obj] else final) rest
           (snd (newObjectId (entry_id res) c)))"

definition concatFix :: "val list \<Rightarrow> nat \<Rightarrow> (val list \<times> nat) option" where
  "concatFix arr c =
     (case filterObjectsWithoutID (concat_args arr) of
        None \<Rightarrow> None
      | Some result \<Rightarrow> Some (concatFix_loop [] result c))"






subsection \<open>Sample data for the reconciliation\<close>




subsection \<open>A sample store\<close>

definition idD :: oid where "idD = ''5c9a1b2c3d4e5f60718293d0''"
definition idM :: oid where "idM = ''5c9a1b2c3d4e5f60718293a0''"
definition idC :: oid where "idC = ''5c9a1b2c3d4e5f60718293c0''"
definition idO :: oid where "idO = ''5c9a1b2c3d4e5f60718293c1''"

definition vase :: doc where
  "vase = [(''_id'', VId idD), (''digobj_title'', VStr ''Vase'')]"

definition vase_model :: doc where
  "vase_model =
     [(''_id'', VId idM), (''name'', VStr ''Vase scan''),
      (''relatedDigitalObject'', ref idD), (''annotationList'', VArr [])]"

definition vase_model_expanded :: doc where
  "vase_model_expanded =
     [(''_id'', VId idM), (''name'', VStr ''Vase scan''),
      (''relatedDigitalObject'', VObj vase), (''annotationList'', VArr [])]"

definition locked :: doc where
  "locked =
     [(''_id'', VId idC), (''name'', VStr ''Private''), (''models'', VArr [ref idM]),
      (''password'', VStr ''x'')]"

definition locked_expanded :: doc where
  "locked_expanded =
     [(''_id'', VId idC), (''name'', VStr ''Private''),
      (''models'', VArr [VObj vase_model_expanded]), (''password'', VStr ''x'')]"

definition open_compilation :: doc where
  "open_compilation =
     [(''_id'', VId idO), (''name'', VStr ''Public''), (''models'', VArr []),
      (''password'', VStr [])]"

definition alice :: account where
  "alice = \<lparr> acc_id = ''5c9a1b2c3d4e5f60718293f1'', username = ''alice'', sessionID = ''s-alice'',
             fullname = ''Alice'', role = ''U'',
             data = [(''model'', [VId idM]), (''compilation'', [VId idC])] \<rparr>"

definition bob :: account where
  "bob = \<lparr> acc_id = ''5c9a1b2c3d4e5f60718293f2'', username = ''bob'', sessionID = ''s-bob'',
           fullname = ''Bob'', role = ''U'', data = [(''model'', [])] \<rparr>"

definition sample_objects :: "string \<Rightarrow> doc list" where
  "sample_objects c =
     (if c = ''digitalobject'' then [vase]
      else if c = ''model'' then [vase_model]
      else if c = ''compilation'' then [locked, open_compilation]
      else [])"

definition sample :: state where
  "sample = \<lparr> objects = sample_objects, accounts = [alice, bob], counter = 0 \<rparr>"

text \<open>
  The same store after a document without \<open>models\<close> has been added to the compilation
  collection, where it comes first.
\<close>

definition idS :: oid where "idS = ''5c9a1b2c3d4e5f60718293bf''"

definition draft :: doc where
  "draft = [(''_id'', VId idS), (''name'', VStr ''Draft'')]"

definition sample_with_draft :: state where
  "sample_with_draft =
     sample\<lparr>objects := (objects sample)(''compilation'' := [draft, locked, open_compilation])\<rparr>"


text \<open>
  The string form of an identifier: the hex string of an ObjectId, the hex string of
  the ObjectId a valid identifier string stands for, the hex string of the identifier
  generated for a number (\<open>c\<close> is the driver's counter), and the string of any other
  value.
\<close>

fun string_form :: "nat \<Rightarrow> val \<Rightarrow> string" where
  "string_form c (VId h) = h"
| "string_form c (VStr s) = (if valid_id_string s then id_of_string s else s)"
| "string_form c (VNum t) = generate t c"
| "string_form c v = js_String v"

text \<open>An ObjectId value carries 24 lower-case hex digits.\<close>

definition wellformed_oid :: "oid \<Rightarrow> bool" where
  "wellformed_oid h = (length h = 24 \<and> list_all (\<lambda>c. c \<in> set ''0123456789abcdef'') h)"

text \<open>
  An identifier in canonical form: an ObjectId, or the string of 24 lower-case hex digits
  an ObjectId prints.
\<close>

fun canonical :: "val \<Rightarrow> bool" where
  "canonical (VId h) = True"
| "canonical (VStr s) = wellformed_oid s"
| "canonical v = False"

text \<open>
  An account whose \<open>data\<close> holds no reference to the sample model, but a note that
  mentions its identifier.
\<close>

definition carol :: account where
  "carol = \<lparr> acc_id = ''5c9a1b2c3d4e5f60718293f3'', username = ''carol'', sessionID = ''s-carol'',
             fullname = ''Carol'', role = ''U'',
             data = [(''notes'', [VObj [(''text'', VStr (''see '' @ idM))]])] \<rparr>"

definition notes_store :: state where
  "notes_store = sample\<lparr>accounts := [carol]\<rparr>"

text \<open>The identifier of the sample model, spelled with upper-case hex digits.\<close>

definition upper_idM :: string where
  "upper_idM = ''5C9A1B2C3D4E5F60718293A0''"


section \<open>Filtered search (\<open>Mongo.searchObjectWithFilter\<close>)\<close>

text \<open>
  \<open>getNestedValues(obj)\<close> walks \<open>Object.keys(obj)\<close>. For an object these are its
  properties; for an array its indices; for a string the indices of its characters (each
  property a one-character string); a number or boolean has none; \<open>null\<close> and
  \<open>undefined\<close> raise a TypeError (\<open>None\<close>). The driver's ObjectId is an object whose own
  properties are internal to the driver: \<open>I h\<close> stands for the strings the walk collects
  from the ObjectId \<open>h\<close>.

  \<open>nested_prop\<close> is the body of the loop for one property value \<open>prop\<close>: a falsy value
  is skipped; an object that is not an array is walked; the elements \<open>p\<close> of an array
  are each passed to \<open>getNestedValues\<close> (\<open>nested_elems\<close>); a string is pushed.
  \<open>nested_fields\<close> and \<open>nested_items\<close> are the loop over the properties of an object
  and of an array.
\<close>

fun getNestedValues :: "(oid \<Rightarrow> string list) \<Rightarrow> val \<Rightarrow> string list option"
  and nested_fields :: "(oid \<Rightarrow> string list) \<Rightarrow> (string \<times> val) list \<Rightarrow> string list option"
  and nested_items :: "(oid \<Rightarrow> string list) \<Rightarrow> val list \<Rightarrow> string list option"
  and nested_prop :: "(oid \<Rightarrow> string list) \<Rightarrow> val \<Rightarrow> string list option"
  and nested_elems :: "(oid \<Rightarrow> string list) \<Rightarrow> val list \<Rightarrow> string list option" where
  "getNestedValues I VUndef = None"
| "getNestedValues I VNull = None"
| "getNestedValues I (VBool b) = Some []"
| "getNestedValues I (VNum n) = Some []"
| "getNestedValues I (VStr s) = Some (map (\<lambda>c. [c]) s)"
| "getNestedValues I (VId h) = Some (I h)"
| "getNestedValues I (VArr xs) = nested_items I xs"
| "getNestedValues I (VObj d) = nested_fields I d"
| "nested_fields I [] = Some []"
| "nested_fields I (kv # d) =
     (case nested_prop I (snd kv) of
        None \<Rightarrow> None
      | Some a \<Rightarrow> (case nested_fields I d of None \<Rightarrow> None | Some b \<Rightarrow> Some (a @ b)))"
| "nested_items I [] = Some []"
| "nested_items I (x # xs) =
     (case nested_prop I x of
        None \<Rightarrow> None
      | Some a \<Rightarrow> (case nested_items I xs of None \<Rightarrow> None | Some b \<Rightarrow> Some (a @ b)))"
| "nested_prop I VUndef = Some []"
| "nested_prop I VNull = Some []"
| "nested_prop I (VBool b) = Some []"
| "nested_prop I (VNum n) = Some []"
| "nested_prop I (VStr s) = (if s = [] then Some [] else Some [s])"
| "nested_prop I (VId h) = Some (I h)"
| "nested_prop I (VArr xs) = nested_elems I xs"
| "nested_prop I (VObj d) = nested_fields I d"
| "nested_elems I [] = Some []"
| "nested_elems I (p # ps) =
     (case getNestedValues I p of
        None \<Rightarrow> None
      | Some a \<Rightarrow> (case nested_elems I ps of None \<Rightarrow> None | Some b \<Rightarrow> Some (a @ b)))"

text \<open>
  The inner loop of \<open>filterResults\<close>: \<open>for (j = 0; j < filter.length; j++)
  { if (asText.indexOf(filter[j]) === -1) break; if (j === filter.length - 1) push }\<close>;
  the result is whether the identifier is pushed.
\<close>

fun filter_loop :: "string \<Rightarrow> string list \<Rightarrow> bool" where
  "filter_loop asText [] = False"
| "filter_loop asText (f # fs) =
     (if \<not> str_includes asText f then False
      else if fs = [] then True
      else filter_loop asText fs)"

fun filterResults :: "(oid \<Rightarrow> string list) \<Rightarrow> string list \<Rightarrow> doc list \<Rightarrow> val list option" where
  "filterResults I fs [] = Some []"
| "filterResults I fs (obj # objs) =
     (case getNestedValues I (VObj obj) of
        None \<Rightarrow> None
      | Some vs \<Rightarrow>
          (let asText = toLowerCase (concat vs)
           in case filterResults I fs objs of
                None \<Rightarrow> None
              | Some rest \<Rightarrow>
                  Some (if filter_loop asText fs then getp obj ''_id'' # rest else rest)))"

text \<open>
  The \<open>model\<close> case of the switch: only finished, online models with a related digital
  object are searched; each has \<open>relatedDigitalObject\<close> replaced by the resolved digital
  object and \<open>settings.preview\<close> cleared. Writing \<open>preview\<close> raises when \<open>settings\<close> is
  \<open>null\<close>, absent or a primitive.
\<close>

definition is_searched_model :: "doc \<Rightarrow> bool" where
  "is_searched_model model =
     (truthy (getp model ''finished'') \<and> truthy (getp model ''online'')
      \<and> truthy (getp model ''relatedDigitalObject'')
      \<and> truthy (js_get (getp model ''relatedDigitalObject'') ''_id''))"

definition prepare_model :: "strategies \<Rightarrow> state \<Rightarrow> doc \<Rightarrow> doc option" where
  "prepare_model S st obj =
     (let tempDigObj = resolve S st (getp obj ''relatedDigitalObject'') ''digitalobject'' None;
          obj1 = setp obj ''relatedDigitalObject'' (resolve S st tempDigObj ''digitalobject'' None)
      in case getp obj1 ''settings'' of
           VObj settings \<Rightarrow> Some (setp obj1 ''settings'' (VObj (setp settings ''preview'' (VStr []))))
         | VArr xs \<Rightarrow> Some obj1
         | VId h \<Rightarrow> Some obj1
         | _ \<Rightarrow> None)"

fun prepare_models :: "strategies \<Rightarrow> state \<Rightarrow> doc list \<Rightarrow> doc list option" where
  "prepare_models S st [] = Some []"
| "prepare_models S st (obj # objs) =
     (case prepare_model S st obj of
        None \<Rightarrow> None
      | Some obj' \<Rightarrow>
          (case prepare_models S st objs of None \<Rightarrow> None | Some objs' \<Rightarrow> Some (obj' # objs')))"

text \<open>
  The documents searched, after the switch on the collection. (For \<open>digitalobject\<close> the
  source resolves every document and drops the results.)
\<close>

definition searched_documents :: "strategies \<Rightarrow> state \<Rightarrow> string \<Rightarrow> doc list option" where
  "searched_documents S st RequestCollection =
     (if RequestCollection = ''model''
      then prepare_models S st (filter is_searched_model (getAllItemsOfCollection st RequestCollection))
      else Some (getAllItemsOfCollection st RequestCollection))"

text \<open>
  \<open>searchObjectWithFilter(request, response)\<close>: \<open>body_filter\<close> is \<open>request.body.filter\<close>
  (\<open>None\<close> when absent). The result is the array sent, \<open>None\<close> when the handler raises.
\<close>

definition searchObjectWithFilter ::
    "strategies \<Rightarrow> (oid \<Rightarrow> string list) \<Rightarrow> state \<Rightarrow> string \<Rightarrow> string list option \<Rightarrow> val list option" where
  "searchObjectWithFilter S I st collection body_filter =
     (let RequestCollection = toLowerCase collection;
          fs = (case body_filter of Some terms \<Rightarrow> map toLowerCase terms | None \<Rightarrow> [[]])
      in case searched_documents S st RequestCollection of
           None \<Rightarrow> None
         | Some allObjects \<Rightarrow> filterResults I fs allObjects)"


text \<open>No array in the value has a \<open>null\<close> or \<open>undefined\<close> element.\<close>

fun no_null_items :: "val \<Rightarrow> bool"
  and no_null_fields :: "(string \<times> val) list \<Rightarrow> bool"
  and no_null_list :: "val list \<Rightarrow> bool" where
  "no_null_items (VArr xs) = no_null_list xs"
| "no_null_items (VObj d) = no_null_fields d"
| "no_null_items VUndef = True"
| "no_null_items VNull = True"
| "no_null_items (VBool b) = True"
| "no_null_items (VNum n) = True"
| "no_null_items (VStr s) = True"
| "no_null_items (VId h) = True"
| "no_null_fields [] = True"
| "no_null_fields (kv # d) = (no_null_items (snd kv) \<and> no_null_fields d)"
| "no_null_list [] = True"
| "no_null_list (x # xs) = (\<not> nullish x \<and> no_null_items x \<and> no_null_list xs)"


text \<open>
  The text of a document in the words of the specification: the nested string fields, objects
  and arrays of objects recursed into, scalars inside arrays left out.
\<close>

fun claimed_text :: "val \<Rightarrow> string"
  and claimed_fields :: "(string \<times> val) list \<Rightarrow> string"
  and claimed_elems :: "val list \<Rightarrow> string" where
  "claimed_text (VStr s) = s"
| "claimed_text (VObj d) = claimed_fields d"
| "claimed_text (VArr xs) = claimed_elems xs"
| "claimed_text VUndef = []"
| "claimed_text VNull = []"
| "claimed_text (VBool b) = []"
| "claimed_text (VNum n) = []"
| "claimed_text (VId h) = []"
| "claimed_fields [] = []"
| "claimed_fields (kv # d) = claimed_text (snd kv) @ claimed_fields d"
| "claimed_elems [] = []"
| "claimed_elems (VObj d # xs) = claimed_fields d @ claimed_elems xs"
| "claimed_elems (VArr ys # xs) = claimed_elems ys @ claimed_elems xs"
| "claimed_elems (x # xs) = claimed_elems xs"

subsection \<open>Sample documents for the search\<close>

definition no_id_text :: "oid \<Rightarrow> string list" where
  "no_id_text h = []"

definition amphora :: doc where
  "amphora =
     [(''_id'', VId idD), (''digobj_title'', VStr ''Amphora''),
      (''digobj_discipline'', VArr [VStr ''Archaeology'', VStr ''Ceramics'']),
      (''digobj_externalLink'', VArr [VObj [(''externalLink_value'', VStr ''example.org'')]])]"

definition krater :: doc where
  "krater = [(''_id'', VId idO), (''digobj_title'', VStr ''Krater''), (''digobj_discipline'', VArr [])]"

text \<open>A title with a capital letter outside ASCII (code \<open>0xC9\<close> is E with an acute accent).\<close>

definition ecole :: doc where
  "ecole = [(''_id'', VId idC), (''digobj_title'', VStr (CHR 0xC9 # ''cole des Beaux-Arts''))]"

definition search_store :: state where
  "search_store =
     \<lparr> objects = (\<lambda>c. if c = ''digitalobject'' then [amphora, krater]
                          else if c = ''tag'' then [ecole] else []),
       accounts = [], counter = 0 \<rparr>"


section \<open>Vocabulary of the normalizer's properties\<close>

text \<open>A document is a JSON object: no property name occurs twice.\<close>

definition wf_doc :: "doc \<Rightarrow> bool" where
  "wf_doc d = distinct (map fst d)"

text \<open>
  The two role passes of \<open>addAndGetId\<close> on the merged document: the role block for
  the person and institution collections, then the removal of falsy entries; the result
  is the document handed to the store.
\<close>

definition process :: "string \<Rightarrow> string \<Rightarrow> val \<Rightarrow> doc \<Rightarrow> doc option" where
  "process coll digId nr field =
     (case (if coll \<in> set [''person'', ''institution''] then addRoles digId nr field
            else Some (field, [])) of
        None \<Rightarrow> None
      | Some fe2 \<Rightarrow> map_option fst (dropNullRoles digId fe2))"

text \<open>
  The shallow merge in the words of the specification: the value of a property after
  the payload has been written over the stored entity is the payload's when the payload
  has the property, and the stored one otherwise.
\<close>

definition shallow_merge :: "doc \<Rightarrow> doc \<Rightarrow> string \<Rightarrow> val" where
  "shallow_merge d payload k = (case map_of payload k of Some v \<Rightarrow> v | None \<Rightarrow> getp d k)"

text \<open>
  The entity stored under the identifier \<open>h\<close> of a payload before the call (the empty
  document when there is none, or when the payload's \<open>_id\<close> does not pass the driver's
  test and nothing is looked up).
\<close>

definition entity_before :: "state \<Rightarrow> string \<Rightarrow> doc \<Rightarrow> oid \<Rightarrow> doc" where
  "entity_before st coll payload h =
     (if ObjectId_isValid (getp payload ''_id'')
      then (case findOne (objects st coll) (VId h) of Some d \<Rightarrow> d | None \<Rightarrow> [])
      else [])"


text \<open>A role field (\<open>institution_role\<close>, \<open>person_role\<close>) is present, that is truthy.\<close>

definition has_role_field :: "(string \<Rightarrow> val) \<Rightarrow> bool" where
  "has_role_field m = (truthy (m ''institution_role'') \<or> truthy (m ''person_role''))"

text \<open>A role map is absent or a plain object.\<close>

fun is_role_map :: "val \<Rightarrow> bool" where
  "is_role_map VUndef = True"
| "is_role_map (VObj r) = True"
| "is_role_map v = False"

text \<open>
  A role map is well formed for an owner: it is absent, or a plain object whose entry for
  the owner is absent (falsy) or an array.
\<close>

fun roles_wellformed :: "string \<Rightarrow> val \<Rightarrow> bool" where
  "roles_wellformed digId VUndef = True"
| "roles_wellformed digId (VObj r) = (case getp r digId of VArr xs \<Rightarrow> True | e \<Rightarrow> \<not> truthy e)"
| "roles_wellformed digId v = False"


subsection \<open>Sample submissions\<close>

definition empty_store :: state where
  "empty_store = \<lparr> objects = (\<lambda>c. []), accounts = [], counter = 0 \<rparr>"

text \<open>A submission of one person payload for one owner, after an earlier one.\<close>

definition then_person :: "string \<Rightarrow> doc \<Rightarrow> (state \<times> val) option \<Rightarrow> (state \<times> val) option" where
  "then_person digId payload before =
     (case before of
        None \<Rightarrow> None
      | Some (st, r) \<Rightarrow> addAndGetId st digId payload ''person'' VUndef)"

text \<open>
  Role accumulation: a new person is submitted with role \<open>A\<close> for owner \<open>O1\<close>, then
  referenced with role \<open>B\<close> for owner \<open>O2\<close>, then referenced with role \<open>A\<close> for
  \<open>O1\<close> again; \<open>n\<close> selects the state after the first, second or third submission.
\<close>

definition role_scenario :: "string \<Rightarrow> string \<Rightarrow> string \<Rightarrow> string \<Rightarrow> nat \<Rightarrow> (state \<times> val) option" where
  "role_scenario A B O1 O2 n =
     (let first = [(''name'', VStr ''Ada''), (''person_role'', VArr [VStr A])];
          second = [(''_id'', VId (mint 0)), (''person_role'', VArr [VStr B])];
          third = [(''_id'', VId (mint 0)), (''person_role'', VArr [VStr A])];
          s1 = then_person O1 first (Some (empty_store, VUndef));
          s2 = then_person O2 second s1;
          s3 = then_person O1 third s2
      in if n = 1 then s1 else if n = 2 then s2 else s3)"

definition owner1 :: string where "owner1 = ''5c9a1b2c3d4e5f6071829001''"

definition owner2 :: string where "owner2 = ''5c9a1b2c3d4e5f6071829002''"

definition ada_repeated :: doc where
  "ada_repeated =
     [(''name'', VStr ''Ada''),
      (''person_role'', VArr [VStr ''CREATOR'', VNull, VStr ''CREATOR'', VStr ''EDITOR''])]"

definition ada_with_roles :: doc where
  "ada_with_roles =
     [(''name'', VStr ''Ada''), (''roles'', VObj [(owner1, VArr [VStr ''A'', VStr ''A''])])]"

definition ada_with_array :: doc where
  "ada_with_array =
     [(''name'', VStr ''Ada''), (''roles'', VArr []), (''person_role'', VArr [VStr ''A''])]"

definition idT :: oid where "idT = ''5c9a1b2c3d4e5f60718293e0''"


definition tag_update :: doc where
  "tag_update = [(''_id'', VStr idT), (''label'', VStr ''amphora'')]"









chapter \<open>Properties\<close>

section \<open>Properties of the reconciliation\<close>










lemma lower_hex: "c \<in> set ''0123456789abcdef'' \<Longrightarrow> lower_char c = c"
  by (simp, elim disjE; simp add: lower_char_def capitals_def smalls_def)

lemma lower_hex_is_hex: "c \<in> set ''0123456789abcdef'' \<Longrightarrow> is_hex c"
  unfolding is_hex_def by (simp, elim disjE; simp)

lemma id_of_string_canonical:
  assumes "wellformed_oid s"
  shows "valid_id_string s \<and> id_of_string s = s"
proof -
  have len: "length s = 24" using assms unfolding wellformed_oid_def by (rule conjunct1)
  have low: "\<forall>c \<in> set s. c \<in> set ''0123456789abcdef''"
    using assms unfolding wellformed_oid_def list_all_iff by (rule conjunct2)
  have "list_all is_hex s"
    unfolding list_all_iff using low lower_hex_is_hex by blast
  then have v: "valid_id_string s" using len by (simp only: valid_id_string_def) simp
  have "map lower_char s = s"
    using low lower_hex by (intro map_idI) blast
  then have "id_of_string s = s" using len by (simp add: id_of_string_def toLowerCase_def)
  with v show ?thesis by simp
qed




text \<open>
  When the \<open>_id\<close> of an entry is a number, the driver accepts it and generates a new
  identifier at every occurrence: such entries are kept as references to identifiers
  nobody holds, and equal numbers are not merged. (Identifiers reach the server as
  ObjectIds or strings; the hypothesis of the theorem above leaves the numbers out.)
\<close>

lemma concatFix_numeric_ids:
  "concatFix [VArr [VObj [(''_id'', VNum 1)], VObj [(''_id'', VNum 2)]],
              VArr [VObj [(''_id'', VNum 2)], VObj [(''_id'', VNum 3)]]] 0 =
     Some ([VObj [(''_id'', VId ''000000010000000000000000'')],
            VObj [(''_id'', VId ''000000020000000000000001'')],
            VObj [(''_id'', VId ''000000020000000000000002'')],
            VObj [(''_id'', VId ''000000030000000000000003'')]], 4)"
  by code_simp

section \<open>Properties of the resolver\<close>

lemma resolve_depth_zero_ignored:
  "resolve S st obj c (Some 0) = resolve S st obj c None"
  by (simp add: resolve_def Let_def)

text \<open>
  C1. \<open>resolve\<close> with depth 0 should return the stored Model unexpanded. In the source
  the guard \<open>depth && depth === 0\<close> is never true, so depth 0 behaves as depth omitted:
  on the sample store the stored model holds a bare reference, and \<open>resolve\<close> with
  depth 0 returns the model with \<open>relatedDigitalObject\<close> expanded.
\<close>

theorem resolve_depth_zero_expands:
  "findOne_resolve (objects sample ''model'') idM = VObj vase_model
   \<and> resolve by_shape sample (ref idM) ''model'' (Some 0) = VObj vase_model_expanded
   \<and> VObj vase_model_expanded \<noteq> VObj vase_model
   \<and> resolve by_shape sample (ref idM) ''model'' (Some 0)
       = resolve by_shape sample (ref idM) ''model'' None"
  by code_simp

section \<open>Properties of the reads\<close>

lemma map_of_setp: "map_of (setp d k v) = (map_of d)(k \<mapsto> v)"
  by (induction d k v rule: setp.induct) auto

lemma map_of_spread: "distinct (map fst b) \<Longrightarrow> map_of (spread a b) = map_of a ++ map_of b"
  unfolding spread_def
proof (induction b arbitrary: a)
  case Nil
  then show ?case by simp
next
  case (Cons kv b)
  have "fst kv \<notin> dom (map_of b)"
    using Cons.prems by (auto simp: dom_map_of_conv_image_fst)
  then have "map_of b (fst kv) = None" by auto
  then show ?case
    using Cons by (cases kv) (auto simp: map_of_setp map_add_def fun_eq_iff split: option.splits)
qed

lemma sample_locked_resolved:
  "resolve by_shape sample (param_id idC) (toLowerCase ''Compilation'') None = VObj locked_expanded"
  by code_simp

lemma sample_locked_shape:
  "isCompilation by_shape (VObj locked_expanded)
   \<and> getp locked_expanded ''password'' = VStr ''x''
   \<and> wf_doc locked_expanded"
  by code_simp

lemma sample_owners:
  "\<not> isUserOwnerOfObject sample ''s-bob'' (param_id idC)
   \<and> isUserOwnerOfObject sample ''s-alice'' (param_id idC)"
  by code_simp

text \<open>
  C5. A single-object read that resolves to a Compilation whose password is a string or
  absent answers with the redacted marker, the two properties \<open>status\<close> and \<open>message\<close>
  and nothing of the compilation, exactly when the password is a non-empty string, the
  requester does not pass the ownership test and the supplied password is not that
  string. In every other case (owner, matching password, empty or absent password) it
  answers with the full body: every property of the resolved compilation, with the
  status \<open>ok\<close> added when the compilation has no \<open>status\<close> of its own; this body is not
  the marker.
\<close>

theorem getObjectFromCollection_gating:
  assumes obj: "resolve S st (param_id identifier) (toLowerCase collection) None = VObj d"
      and comp: "isCompilation S (VObj d)"
      and wf: "wf_doc d"
      and pw: "getp d ''password'' = pw" "pw = VUndef \<or> pw = VNull \<or> pw = VStr s"
  shows "if pw = VStr s \<and> s \<noteq> []
            \<and> \<not> isUserOwnerOfObject st sid (param_id identifier)
            \<and> (case password_param of Some p \<Rightarrow> p | None \<Rightarrow> []) \<noteq> s
         then getObjectFromCollection S st sid collection identifier password_param =
                VObj [(''status'', VStr ''ok''),
                      (''message'', VStr ''Password protected compilation'')]
         else (\<exists>body. getObjectFromCollection S st sid collection identifier password_param
                        = VObj body
                 \<and> map_of body = map_of [(''status'', VStr ''ok'')] ++ map_of d
                 \<and> (map_of d ''_id'' \<noteq> None \<longrightarrow>
                      VObj body \<noteq> VObj [(''status'', VStr ''ok''),
                                         (''message'', VStr ''Password protected compilation'')]))"
proof -
  let ?marker = "VObj [(''status'', VStr ''ok''),
                       (''message'', VStr ''Password protected compilation'')]"
  let ?body = "spread [(''status'', VStr ''ok'')] d"
  have p: "(case password_param of Some p \<Rightarrow> if p \<noteq> [] then p else [] | None \<Rightarrow> [])
           = (case password_param of Some p \<Rightarrow> p | None \<Rightarrow> [])"
    by (cases password_param) auto
  have g: "getObjectFromCollection S st sid collection identifier password_param =
           (if pw = VStr s \<and> s \<noteq> []
               \<and> \<not> isUserOwnerOfObject st sid (param_id identifier)
               \<and> (case password_param of Some p \<Rightarrow> p | None \<Rightarrow> []) \<noteq> s
            then ?marker else VObj ?body)"
    using obj comp pw unfolding getObjectFromCollection_def Let_def p
    by (auto simp: ok_body_def protected_marker_def js_get_def)
  have m: "map_of ?body = map_of [(''status'', VStr ''ok'')] ++ map_of d"
    using wf unfolding wf_doc_def by (rule map_of_spread)
  have n: "VObj ?body \<noteq> ?marker" if "map_of d ''_id'' \<noteq> None"
  proof
    assume "VObj ?body = ?marker"
    then have "map_of ?body ''_id'' = None" by simp
    then show False using that unfolding m by (simp add: map_add_def split: option.splits)
  qed
  show ?thesis
    unfolding g using m n by (simp del: map_of.simps)
qed

text \<open>
  On the sample store the locked compilation has the password \<open>x\<close>: Bob, who does not
  own it, gets the marker without a password and with a wrong one, and the full body
  with the right one; Alice, who owns it, gets the full body.
\<close>

theorem getObjectFromCollection_gating_witness:
  "resolve by_shape sample (param_id idC) (toLowerCase ''Compilation'') None = VObj locked_expanded
   \<and> isCompilation by_shape (VObj locked_expanded)
   \<and> wf_doc locked_expanded
   \<and> getp locked_expanded ''password'' = VStr ''x''
   \<and> getObjectFromCollection by_shape sample ''s-bob'' ''Compilation'' idC None
       = VObj [(''status'', VStr ''ok''), (''message'', VStr ''Password protected compilation'')]
   \<and> getObjectFromCollection by_shape sample ''s-bob'' ''Compilation'' idC (Some ''y'')
       = VObj [(''status'', VStr ''ok''), (''message'', VStr ''Password protected compilation'')]
   \<and> (\<exists>body. getObjectFromCollection by_shape sample ''s-bob'' ''Compilation'' idC (Some ''x'')
                = VObj body
         \<and> map_of body ''_id'' = Some (VId idC)
         \<and> map_of body ''models'' = Some (VArr [VObj vase_model_expanded]))
   \<and> (\<exists>body. getObjectFromCollection by_shape sample ''s-alice'' ''Compilation'' idC None
                = VObj body
         \<and> map_of body ''_id'' = Some (VId idC)
         \<and> map_of body ''models'' = Some (VArr [VObj vase_model_expanded]))"
proof -
  have s: "isCompilation by_shape (VObj locked_expanded)" "wf_doc locked_expanded"
    "getp locked_expanded ''password'' = VStr ''x''"
    using sample_locked_shape by simp_all
  have o: "\<not> isUserOwnerOfObject sample ''s-bob'' (param_id idC)"
    "isUserOwnerOfObject sample ''s-alice'' (param_id idC)"
    using sample_owners by simp_all
  note g = getObjectFromCollection_gating [OF sample_locked_resolved s(1) s(2) s(3),
      of "''x''"]
  have l: "map_of locked_expanded ''_id'' = Some (VId idC)"
    "map_of locked_expanded ''models'' = Some (VArr [VObj vase_model_expanded])"
    by (simp_all add: locked_expanded_def)
  have b1: "getObjectFromCollection by_shape sample ''s-bob'' ''Compilation'' idC None
       = VObj [(''status'', VStr ''ok''), (''message'', VStr ''Password protected compilation'')]"
    using g [of "''s-bob''" None] o(1) by simp
  have b2: "getObjectFromCollection by_shape sample ''s-bob'' ''Compilation'' idC (Some ''y'')
       = VObj [(''status'', VStr ''ok''), (''message'', VStr ''Password protected compilation'')]"
    using g [of "''s-bob''" "Some ''y''"] o(1) by simp
  have b3: "\<exists>body. getObjectFromCollection by_shape sample ''s-bob'' ''Compilation'' idC (Some ''x'')
                = VObj body
         \<and> map_of body ''_id'' = Some (VId idC)
         \<and> map_of body ''models'' = Some (VArr [VObj vase_model_expanded])"
    using g [of "''s-bob''" "Some ''x''"] l by (auto simp: map_add_def)
  have a: "\<exists>body. getObjectFromCollection by_shape sample ''s-alice'' ''Compilation'' idC None
                = VObj body
         \<and> map_of body ''_id'' = Some (VId idC)
         \<and> map_of body ''models'' = Some (VArr [VObj vase_model_expanded])"
    using g [of "''s-alice''" None] o(2) l by (auto simp: map_add_def)
  show ?thesis
    using sample_locked_resolved s b1 b2 b3 a by (intro conjI)
qed

text \<open>
  The fetch-all read filters the resolved documents only when the first of them is a
  compilation: on a collection whose resolved documents are all compilations the result
  is the list of those whose password is absent (falsy) or of length 0, and on a
  collection whose first resolved document is not a compilation nothing is filtered.
\<close>

lemma getAllObjects_filters_compilations:
  assumes res: "results = filter truthy
                  (map (\<lambda>d. resolve S st (VObj d) (toLowerCase collection) None)
                       (getAllItemsOfCollection st (toLowerCase collection)))"
      and comp: "list_all (isCompilation S) results"
  shows "getAllObjectsFromCollection S st collection = filter isPasswordProtected_filter results
       \<and> (\<forall>c \<in> set results. \<forall>s. js_get c ''password'' = VStr s \<and> s \<noteq> []
             \<longrightarrow> c \<notin> set (getAllObjectsFromCollection S st collection))
       \<and> (\<forall>c \<in> set results. js_get c ''password'' \<in> {VUndef, VNull, VStr []}
             \<longrightarrow> c \<in> set (getAllObjectsFromCollection S st collection))"
proof -
  have out: "getAllObjectsFromCollection S st collection
             = filter isPasswordProtected_filter results"
    using comp unfolding getAllObjectsFromCollection_def Let_def res [symmetric]
    by (cases results) auto
  show ?thesis
    unfolding out by (auto simp: isPasswordProtected_filter_def Let_def)
qed

lemma getAllObjects_unfiltered:
  assumes res: "filter truthy
                  (map (\<lambda>d. resolve S st (VObj d) (toLowerCase collection) None)
                       (getAllItemsOfCollection st (toLowerCase collection))) = first # rest"
      and other: "\<not> isCompilation S first"
  shows "getAllObjectsFromCollection S st collection = first # rest"
  using other unfolding getAllObjectsFromCollection_def Let_def res by simp

lemma sample_compilations:
  "getAllObjectsFromCollection by_shape sample ''compilation'' = [VObj open_compilation]"
  by code_simp

text \<open>
  C10. The fetch-all read on the compilation collection should leave out every
  compilation with a non-empty password. The source decides whether to filter by looking
  at the first resolved document only (\<open>results.length > 0 && isCompilation(results[0])\<close>):
  once the collection starts with a document that is not a compilation (here one stored
  without \<open>models\<close>), the locked compilation, whose password is \<open>x\<close>, is returned in full.
\<close>

theorem getAllObjects_leaks_protected:
  "getAllItemsOfCollection sample_with_draft ''compilation'' = [draft, locked, open_compilation]
   \<and> \<not> isCompilation by_shape (VObj draft)
   \<and> getp locked ''password'' = VStr ''x''
   \<and> getAllObjectsFromCollection by_shape sample_with_draft ''compilation''
       = [VObj draft, VObj locked_expanded, VObj open_compilation]
   \<and> getp locked_expanded ''password'' = VStr ''x''"
  by code_simp

section \<open>Properties of the ownership layer\<close>

lemma length_hexn: "length (hexn w n) = w"
  by (induction w n rule: hexn.induct) auto

lemma length_concat_hex: "length (concat (map (\<lambda>c. hexn 2 (f c)) s)) = 2 * length s"
  by (induction s) (auto simp: length_hexn)

lemma length_id_of_string: "valid_id_string s \<Longrightarrow> length (id_of_string s) = 24"
  by (auto simp: valid_id_string_def id_of_string_def toLowerCase_def length_concat_hex)

lemma sublist_two: "sublist xs [a, b] \<longleftrightarrow> xs = [] \<or> xs = [a] \<or> xs = [b] \<or> xs = [a, b]"
  by (cases xs) (auto simp: sublist_code prefix_Cons sublist_Cons_right)

lemma searched_string:
  "js_String (if ObjectId_isValid i then VId (fst (newObjectId i c)) else i) = string_form c i"
  by (cases i) (auto simp: js_String_def)

lemma length_string_form:
  assumes "ObjectId_isValid i" and "\<forall>h. i = VId h \<longrightarrow> wellformed_oid h"
  shows "length (string_form c i) = 24"
proof (cases i)
  case (VId h)
  then show ?thesis using assms(2) by (simp add: wellformed_oid_def)
next
  case (VStr s)
  then show ?thesis using assms(1) by (simp add: length_id_of_string)
next
  case (VNum t)
  then show ?thesis by (simp add: generate_def length_hexn)
qed (use assms(1) in simp_all)

text \<open>
  C7. For a session with an Account the ownership test is true exactly when the
  identifier's string form (the hex string of the ObjectId it is or stands for) is a
  substring of the JSON serialisation of the Account's \<open>data\<close> map, wherever it occurs.
  For a session with no Account the test is false for every identifier that passes the
  driver's test, as the identifiers of the stored documents do.
\<close>

theorem isUserOwnerOfObject_containment:
  "(\<forall>u. getCurrentUserBySession st sid = Some u \<longrightarrow>
      isUserOwnerOfObject st sid identifier =
        sublist (string_form (counter st) identifier) (stringify (data_val (data u))))
   \<and> (getCurrentUserBySession st sid = None \<and> ObjectId_isValid identifier
        \<and> (\<forall>h. identifier = VId h \<longrightarrow> wellformed_oid h) \<longrightarrow>
      \<not> isUserOwnerOfObject st sid identifier)"
proof -
  have A: "isUserOwnerOfObject st sid identifier =
        sublist (string_form (counter st) identifier) (stringify (data_val (data u)))"
    if "getCurrentUserBySession st sid = Some u" for u
    using that
    by (simp add: isUserOwnerOfObject_def Let_def str_includes_def searched_string)
  have B: "isUserOwnerOfObject st sid identifier =
        (string_form (counter st) identifier \<in> {[], [CHR 0x22], [CHR 0x22, CHR 0x22]})"
    if "getCurrentUserBySession st sid = None"
    using that
    by (auto simp: isUserOwnerOfObject_def Let_def str_includes_def searched_string
        json_quote_def sublist_two)
  have C: "\<not> isUserOwnerOfObject st sid identifier"
    if "getCurrentUserBySession st sid = None" "ObjectId_isValid identifier"
      "\<forall>h. identifier = VId h \<longrightarrow> wellformed_oid h"
    using length_string_form [OF that(2,3), of "counter st"] B [OF that(1)] by auto
  from A C show ?thesis by blast
qed

lemma sample_sessions:
  "getCurrentUserBySession sample ''s-alice'' = Some alice
   \<and> getCurrentUserBySession sample ''s-bob'' = Some bob
   \<and> getCurrentUserBySession sample ''no-session'' = None
   \<and> getCurrentUserBySession notes_store ''s-carol'' = Some carol"
  by code_simp

lemma sample_serialised:
  "stringify (data_val (data alice)) =
     ''{'' @ [CHR 0x22] @ ''model'' @ [CHR 0x22] @ '':['' @ [CHR 0x22] @ idM @ [CHR 0x22]
       @ ''],'' @ [CHR 0x22] @ ''compilation'' @ [CHR 0x22] @ '':['' @ [CHR 0x22] @ idC
       @ [CHR 0x22] @ '']}''"
  by code_simp

lemma sample_texts:
  "sublist idC (stringify (data_val (data alice)))
   \<and> \<not> sublist idC (stringify (data_val (data bob)))
   \<and> sublist idM (stringify (data_val (data carol)))
   \<and> \<not> list_ex (\<lambda>x. toString x = idM) (concat (map snd (data carol)))
   \<and> wellformed_oid idC"
  by code_simp

text \<open>
  On the sample store: Alice owns the locked compilation, whose identifier is in the
  serialised text of her data (under \<open>compilation\<close>; the test does not ask where); Bob
  does not; a session without an Account does not. Carol's data holds no reference to
  the sample model, only a note that mentions its identifier, and the test holds for it.
\<close>

theorem isUserOwnerOfObject_containment_witness:
  "getCurrentUserBySession sample ''s-alice'' = Some alice
   \<and> isUserOwnerOfObject sample ''s-alice'' (VStr idC)
   \<and> getCurrentUserBySession sample ''s-bob'' = Some bob
   \<and> \<not> isUserOwnerOfObject sample ''s-bob'' (VId idC)
   \<and> getCurrentUserBySession notes_store ''s-carol'' = Some carol
   \<and> \<not> list_ex (\<lambda>x. toString x = idM) (concat (map snd (data carol)))
   \<and> isUserOwnerOfObject notes_store ''s-carol'' (VId idM)
   \<and> getCurrentUserBySession sample ''no-session'' = None
   \<and> ObjectId_isValid (VId idC) \<and> wellformed_oid idC
   \<and> \<not> isUserOwnerOfObject sample ''no-session'' (VId idC)"
proof -
  have s: "getCurrentUserBySession sample ''s-alice'' = Some alice"
    "getCurrentUserBySession sample ''s-bob'' = Some bob"
    "getCurrentUserBySession sample ''no-session'' = None"
    "getCurrentUserBySession notes_store ''s-carol'' = Some carol"
    using sample_sessions by simp_all
  have t: "sublist idC (stringify (data_val (data alice)))"
    "\<not> sublist idC (stringify (data_val (data bob)))"
    "sublist idM (stringify (data_val (data carol)))"
    "\<not> list_ex (\<lambda>x. toString x = idM) (concat (map snd (data carol)))"
    and w: "wellformed_oid idC"
    using sample_texts by simp_all
  have a: "isUserOwnerOfObject sample ''s-alice'' (VStr idC)"
    using isUserOwnerOfObject_containment [of sample "''s-alice''" "VStr idC",
        THEN conjunct1, rule_format, OF s(1)] t(1) id_of_string_canonical [OF w]
    by simp
  have b: "\<not> isUserOwnerOfObject sample ''s-bob'' (VId idC)"
    using isUserOwnerOfObject_containment [of sample "''s-bob''" "VId idC",
        THEN conjunct1, rule_format, OF s(2)] t(2)
    by simp
  have c: "isUserOwnerOfObject notes_store ''s-carol'' (VId idM)"
    using isUserOwnerOfObject_containment [of notes_store "''s-carol''" "VId idM",
        THEN conjunct1, rule_format, OF s(4)] t(3)
    by simp
  have v: "ObjectId_isValid (VId idC)" by simp
  have n: "\<not> isUserOwnerOfObject sample ''no-session'' (VId idC)"
    using isUserOwnerOfObject_containment [of sample "''no-session''" "VId idC",
        THEN conjunct2, rule_format] s(3) w
    by simp
  show ?thesis
    using s(1) a s(2) b s(4) t(4) c s(3) v w n by (intro conjI)
qed

text \<open>
  An identifier that does not pass the driver's test is searched as it is; without an
  Account the searched text is the serialisation of the empty string, two quote
  characters, in which a quote character is found. The store assigns no such
  identifier.
\<close>

lemma isUserOwnerOfObject_invalid_identifier:
  "getCurrentUserBySession sample ''no-session'' = None
   \<and> \<not> ObjectId_isValid (VStr [CHR 0x22])
   \<and> isUserOwnerOfObject sample ''no-session'' (VStr [CHR 0x22])"
  by code_simp

lemma find_updateOne_data:
  "find (\<lambda>a. sessionID a = sid) (updateOne_data sid d accs)
     = map_option (\<lambda>a. a\<lparr>data := d\<rparr>) (find (\<lambda>a. sessionID a = sid) accs)"
  by (induction accs) auto

lemma canonical_newObjectId:
  "canonical i \<Longrightarrow> ObjectId_isValid i \<and> newObjectId i c = (toString i, c)"
  using id_of_string_canonical by (cases i) auto

lemma find_append_last: "P x \<Longrightarrow> find P (xs @ [x]) \<noteq> None"
  by (induction xs) auto

text \<open>
  C8. For an identifier in canonical form (an ObjectId, as the calls of the source pass
  it, or its lower-case hex string) and a session with an Account: when an attach
  succeeds, the identifier has been appended to \<open>data[collection]\<close> as an ObjectId if no
  entry printed it before, and nothing has changed otherwise; a second attach of the
  same identifier succeeds and changes nothing; so after the two, an identifier that was
  not there before occurs exactly once.
\<close>

theorem insertCurrentUserData_idempotent:
  assumes acc: "getCurrentUserBySession st sid = Some u"
      and can: "canonical identifier"
      and first: "insertCurrentUserData ack1 st sid identifier collection = (True, st1)"
      and before: "before = (case map_of (data u) collection of Some xs \<Rightarrow> xs | None \<Rightarrow> [])"
  shows "(if list_ex (\<lambda>x. truthy x \<and> toString x = toString identifier) before
          then st1 = st
          else st1 = st\<lparr>accounts := updateOne_data sid
                         (setp (data u) collection (before @ [VId (toString identifier)]))
                         (accounts st)\<rparr>
               \<and> getCurrentUserBySession st1 sid
                   = Some (u\<lparr>data := setp (data u) collection
                                       (before @ [VId (toString identifier)])\<rparr>))
       \<and> insertCurrentUserData ack2 st1 sid identifier collection = (True, st1)
       \<and> (list_ex (\<lambda>x. toString x = toString identifier) before
          \<or> (\<exists>u1. getCurrentUserBySession st1 sid = Some u1
                \<and> filter (\<lambda>x. toString x = toString identifier)
                     (case map_of (data u1) collection of Some xs \<Rightarrow> xs | None \<Rightarrow> [])
                   = [VId (toString identifier)]))"
proof -
  let ?h = "toString identifier"
  let ?P = "\<lambda>obj. toString obj = ?h"
  have v: "ObjectId_isValid identifier" and n: "newObjectId identifier c = (?h, c)" for c
    using canonical_newObjectId [OF can] by simp_all
  have ex: "find ?P (filter truthy before) \<noteq> None
            \<longleftrightarrow> list_ex (\<lambda>x. truthy x \<and> toString x = ?h) before"
    by (auto simp: find_None_iff list_ex_iff)
  show ?thesis
  proof (cases "list_ex (\<lambda>x. truthy x \<and> toString x = ?h) before")
    case True
    then have f: "find ?P (filter truthy before) \<noteq> None" using ex by simp
    have "insertCurrentUserData a st sid identifier collection = (True, st)" for a
      using acc v f unfolding insertCurrentUserData_def before by (simp add: Let_def)
    moreover have "list_ex (\<lambda>x. toString x = ?h) before"
      using True by (auto simp: list_ex_iff)
    ultimately show ?thesis using first True by simp
  next
    case False
    then have f: "find ?P (filter truthy before) = None" using ex by simp
    let ?d = "setp (data u) collection (before @ [VId ?h])"
    let ?st1 = "st\<lparr>accounts := updateOne_data sid ?d (accounts st)\<rparr>"
    have run: "insertCurrentUserData ack1 st sid identifier collection =
               (if ack1 then (True, ?st1) else (False, st))"
      using acc v f unfolding insertCurrentUserData_def before by (simp add: Let_def n)
    then have st1: "st1 = ?st1" using first by (cases ack1) simp_all
    have u1: "getCurrentUserBySession st1 sid = Some (u\<lparr>data := ?d\<rparr>)"
      using acc unfolding st1 getCurrentUserBySession_def by (simp add: find_updateOne_data)
    have arr: "(case map_of (data (u\<lparr>data := ?d\<rparr>)) collection of Some xs \<Rightarrow> xs | None \<Rightarrow> [])
               = before @ [VId ?h]"
      by (simp add: map_of_setp)
    have second: "insertCurrentUserData ack2 st1 sid identifier collection = (True, st1)"
      using u1 v unfolding insertCurrentUserData_def
      by (simp add: Let_def map_of_setp find_append_last)
    have once: "filter ?P (before @ [VId ?h]) = [VId ?h]"
      if "\<not> list_ex (\<lambda>x. toString x = ?h) before"
      using that by (simp add: list_ex_iff filter_empty_conv)
    have "list_ex (\<lambda>x. toString x = ?h) before
          \<or> (\<exists>u1. getCurrentUserBySession st1 sid = Some u1
                \<and> filter ?P (case map_of (data u1) collection of Some xs \<Rightarrow> xs | None \<Rightarrow> [])
                   = [VId ?h])"
      using u1 arr once by (cases "list_ex (\<lambda>x. toString x = ?h) before") simp_all
    then show ?thesis using False st1 u1 second by simp
  qed
qed

lemma sample_attach:
  "fst (insertCurrentUserData True sample ''s-bob'' (VId idM) ''model'')
   \<and> map_of (data bob) ''model'' = Some []
   \<and> map data (accounts (snd (insertCurrentUserData True sample ''s-bob'' (VId idM) ''model'')))
       = [data alice, [(''model'', [VId idM])]]"
  by code_simp

text \<open>
  On the sample store, Bob's \<open>data.model\<close> is empty: attaching the ObjectId of the sample
  model appends it, and attaching it again changes nothing.
\<close>

theorem insertCurrentUserData_idempotent_witness:
  "getCurrentUserBySession sample ''s-bob'' = Some bob
   \<and> canonical (VId idM)
   \<and> map_of (data bob) ''model'' = Some []
   \<and> fst (insertCurrentUserData True sample ''s-bob'' (VId idM) ''model'')
   \<and> map data (accounts (snd (insertCurrentUserData True sample ''s-bob'' (VId idM) ''model'')))
       = [data alice, [(''model'', [VId idM])]]
   \<and> insertCurrentUserData True
        (snd (insertCurrentUserData True sample ''s-bob'' (VId idM) ''model''))
        ''s-bob'' (VId idM) ''model''
       = (True, snd (insertCurrentUserData True sample ''s-bob'' (VId idM) ''model''))"
proof -
  have b: "getCurrentUserBySession sample ''s-bob'' = Some bob"
    using sample_sessions by simp
  have c: "canonical (VId idM)" by simp
  have r: "insertCurrentUserData True sample ''s-bob'' (VId idM) ''model''
           = (True, snd (insertCurrentUserData True sample ''s-bob'' (VId idM) ''model''))"
    using sample_attach
    by (cases "insertCurrentUserData True sample ''s-bob'' (VId idM) ''model''") simp
  from insertCurrentUserData_idempotent [OF b c r refl, of True]
  have "insertCurrentUserData True
        (snd (insertCurrentUserData True sample ''s-bob'' (VId idM) ''model''))
        ''s-bob'' (VId idM) ''model''
       = (True, snd (insertCurrentUserData True sample ''s-bob'' (VId idM) ''model''))"
    by (elim conjE)
  then show ?thesis using b c sample_attach by (intro conjI) simp_all
qed

text \<open>
  Outside the canonical form the check and the store disagree: the source looks for
  \<open>identifier.toString()\<close> among the stored ObjectIds and stores
  \<open>new ObjectId(identifier)\<close>, so for a valid identifier string spelled with upper-case
  hex digits the second attach appends the same ObjectId again.
\<close>

lemma insertCurrentUserData_upper_case:
  "ObjectId_isValid (VStr upper_idM) \<and> \<not> canonical (VStr upper_idM)
   \<and> map_of (data bob) ''model'' = Some []
   \<and> fst (insertCurrentUserData True sample ''s-bob'' (VStr upper_idM) ''model'')
   \<and> map data (accounts (snd (insertCurrentUserData True sample ''s-bob'' (VStr upper_idM) ''model'')))
       = [data alice, [(''model'', [VId idM])]]
   \<and> map data (accounts (snd (insertCurrentUserData True
            (snd (insertCurrentUserData True sample ''s-bob'' (VStr upper_idM) ''model''))
            ''s-bob'' (VStr upper_idM) ''model'')))
       = [data alice, [(''model'', [VId idM, VId idM])]]"
  by code_simp

section \<open>Properties of deletion\<close>

text \<open>
  C6. A successful delete should prune the reference from the Account's \<open>data\<close>. The
  source filters \<open>data[collection]\<close> with \<open>id !== identifier.toString()\<close>, which
  compares the stored ObjectIds with a string and so keeps them all: on the sample
  store Alice deletes her model, the model leaves the collection, and her \<open>data\<close> still
  lists it (and the ownership test still holds for it).
\<close>

theorem removeObjectFromCollection_keeps_reference:
  "fst (removeObjectFromCollection True True sample ''s-alice'' ''model'' idM ''alice'')
     = Some status_ok
   \<and> objects (snd (removeObjectFromCollection True True sample ''s-alice'' ''model'' idM ''alice''))
       ''model'' = []
   \<and> map data (accounts
         (snd (removeObjectFromCollection True True sample ''s-alice'' ''model'' idM ''alice'')))
       = [[(''model'', [VId idM]), (''compilation'', [VId idC])], [(''model'', [])]]
   \<and> isUserOwnerOfObject
        (snd (removeObjectFromCollection True True sample ''s-alice'' ''model'' idM ''alice''))
        ''s-alice'' (VStr idM)"
  by code_simp

section \<open>Properties of the normalizer\<close>

lemma getp_setp: "getp (setp d k v) k' = (if k' = k then v else getp d k')"
  by (simp add: getp_def map_of_setp)

lemma keys_setp: "fst ` set (setp d k v) = insert k (fst ` set d)"
  by (induction d k v rule: setp.induct) auto

lemma distinct_setp: "distinct (map fst d) \<Longrightarrow> distinct (map fst (setp d k v))"
proof (induction d k v rule: setp.induct)
  case (1 k v)
  then show ?case by simp
next
  case (2 k' v' d k v)
  then show ?case
    using keys_setp [of d k v] by (auto simp: image_iff)
qed

lemma wf_setp: "wf_doc d \<Longrightarrow> wf_doc (setp d k v)"
  by (simp add: wf_doc_def distinct_setp)

lemma setp_setp: "setp (setp d k v) k w = setp d k w"
  by (induction d k v rule: setp.induct) auto

lemma map_of_spread_other: "k \<notin> fst ` set b \<Longrightarrow> map_of (spread a b) k = map_of a k"
  unfolding spread_def
  by (induction b arbitrary: a) (auto simp: map_of_setp)

lemma wf_spread: "wf_doc a \<Longrightarrow> wf_doc (spread a b)"
  unfolding spread_def
  by (induction b arbitrary: a) (auto simp: wf_setp)

lemma getp_spread: "wf_doc b \<Longrightarrow> getp (spread a b) k = shallow_merge a b k"
  by (simp add: getp_def shallow_merge_def map_of_spread wf_doc_def map_add_def
      split: option.splits)

lemma map_of_delp: "map_of (delp d k) = (map_of d)(k := None)"
  unfolding delp_def by (induction d) (auto simp: fun_eq_iff)

lemma wf_delp: "wf_doc d \<Longrightarrow> wf_doc (delp d k)"
  by (simp add: wf_doc_def delp_def distinct_map_filter)

lemma keys_delp: "k \<notin> fst ` set (delp d k)"
  by (auto simp: delp_def)


lemma findOne_id: "findOne ds i = Some d \<Longrightarrow> map_of d ''_id'' = Some i"
  by (auto simp: findOne_def find_Some_iff)

lemma updateOne_set_None: "updateOne_set ds h f = None \<longleftrightarrow> findOne ds (VId h) = None"
  by (induction ds) (auto simp: findOne_def split: option.splits)

lemma updateOne_set_first:
  "findOne ds (VId h) = Some d \<Longrightarrow>
   \<exists>pre post. ds = pre @ d # post \<and> findOne pre (VId h) = None
      \<and> updateOne_set ds h f = Some (pre @ spread d f # post)"
proof (induction ds)
  case Nil
  then show ?case by (simp add: findOne_def)
next
  case (Cons x ds)
  show ?case
  proof (cases "map_of x ''_id'' = Some (VId h)")
    case True
    then have "d = x" using Cons.prems by (simp add: findOne_def)
    then show ?thesis
      using True by (intro exI [of _ "[]"] exI [of _ ds]) (simp add: findOne_def)
  next
    case False
    then have "findOne ds (VId h) = Some d" using Cons.prems by (simp add: findOne_def)
    from Cons.IH [OF this] obtain pre post where
      p: "ds = pre @ d # post" "findOne pre (VId h) = None"
      "updateOne_set ds h f = Some (pre @ spread d f # post)"
      by blast
    show ?thesis
      using False p by (intro exI [of _ "x # pre"] exI [of _ post]) (simp add: findOne_def)
  qed
qed

lemma upsert_update:
  assumes "findOne ds (VId h) = Some d"
  shows "\<exists>pre post. ds = pre @ d # post \<and> findOne pre (VId h) = None
           \<and> upsert ds h f = pre @ spread d f # post"
proof -
  from updateOne_set_first [OF assms, of f] obtain pre post where
    p: "ds = pre @ d # post" "findOne pre (VId h) = None"
    "updateOne_set ds h f = Some (pre @ spread d f # post)"
    by blast
  show ?thesis
    using p by (intro exI [of _ pre] exI [of _ post]) (simp add: upsert_def)
qed

lemma upsert_fresh:
  "findOne ds (VId h) = None \<Longrightarrow> upsert ds h f = ds @ [(''_id'', VId h) # f]"
  using updateOne_set_None [of ds h f] by (simp add: upsert_def)

lemma findOne_append_first:
  "findOne pre i = None \<Longrightarrow> map_of d ''_id'' = Some i \<Longrightarrow> findOne (pre @ d # post) i = Some d"
  by (induction pre) (auto simp: findOne_def split: if_splits)

lemma findOne_append_last:
  "findOne ds i = None \<Longrightarrow> map_of d ''_id'' = Some i \<Longrightarrow> findOne (ds @ [d]) i = Some d"
  by (induction ds) (auto simp: findOne_def split: if_splits)

subsection \<open>The role block\<close>

lemma roles_get_obj: "getp (fst fe) ''roles'' = VObj r \<Longrightarrow> roles_get fe k = getp r k"
  by (simp add: roles_get_def)

lemma roles_set_obj:
  "getp (fst fe) ''roles'' = VObj r \<Longrightarrow>
   roles_set fe k v = (setp (fst fe) ''roles'' (VObj (setp r k v)), snd fe)"
  by (simp add: roles_set_def)

lemma roles_set_other:
  "k' \<noteq> ''roles'' \<Longrightarrow> map_of (fst (roles_set fe k v)) k' = map_of (fst fe) k'"
  by (auto simp: roles_set_def map_of_setp split: val.splits)

lemma wf_roles_set: "wf_doc (fst fe) \<Longrightarrow> wf_doc (fst (roles_set fe k v))"
  by (auto simp: roles_set_def wf_setp split: val.splits)

lemma role_step_other:
  "k \<noteq> ''roles'' \<Longrightarrow> k \<noteq> p \<Longrightarrow>
   map_of (fst (role_step digId nr e fe p)) k = map_of (fst fe) k"
  by (simp add: role_step_def Let_def map_of_setp roles_set_other)

lemma role_step_field:
  "map_of (fst (role_step digId nr e fe p)) p =
     (if truthy (getp (fst fe) p) then Some (VArr []) else map_of (fst fe) p)"
  by (simp add: role_step_def Let_def map_of_setp)

lemma wf_role_step: "wf_doc (fst fe) \<Longrightarrow> wf_doc (fst (role_step digId nr e fe p))"
  by (simp add: role_step_def Let_def wf_setp wf_roles_set)

lemma role_step_roles:
  assumes "getp (fst fe) ''roles'' = VObj r" "p \<noteq> ''roles''"
  shows "\<exists>r'. getp (fst (role_step digId nr e fe p)) ''roles'' = VObj r'
           \<and> (\<forall>q. q \<noteq> digId \<longrightarrow> map_of r' q = map_of r q)
           \<and> (if truthy (getp (fst fe) p) then (\<exists>ys. getp r' digId = VArr (from_Set ys))
              else getp r' digId = getp r digId)"
proof (cases "truthy (getp (fst fe) p)")
  case False
  then show ?thesis using assms by (simp add: role_step_def)
next
  case True
  define ys where "ys = (if e then flatten_list [roles_get fe digId,
                                     (if truthy nr then nr else getp (fst fe) p)]
                         else flatten_list [if truthy nr then nr else getp (fst fe) p])"
  have "getp (fst (role_step digId nr e fe p)) ''roles''
        = VObj (setp r digId (VArr (from_Set ys)))"
    using True assms
    by (simp add: role_step_def Let_def roles_set_obj [OF assms(1)] getp_setp ys_def)
  then show ?thesis
    using True
    by (intro exI [of _ "setp r digId (VArr (from_Set ys))"])
       (auto simp: map_of_setp getp_setp)
qed

lemma from_Set_loop_distinct:
  "distinct (filter primitive seen) \<Longrightarrow> distinct (filter primitive (from_Set_loop seen xs))"
proof (induction xs arbitrary: seen)
  case Nil
  then show ?case by simp
next
  case (Cons x xs)
  show ?case
  proof (cases "list_ex (same_value x) seen")
    case True
    then show ?thesis using Cons by simp
  next
    case False
    then have "primitive x \<Longrightarrow> x \<notin> set seen"
      by (auto simp: list_ex_iff same_value_def)
    then have "distinct (filter primitive (seen @ [x]))"
      using Cons.prems by auto
    then show ?thesis using False Cons.IH by simp
  qed
qed

lemma from_Set_distinct: "distinct (filter primitive (from_Set xs))"
  by (simp add: from_Set_def from_Set_loop_distinct)

text \<open>The role map the block starts from: the one of the document, or the empty one.\<close>

lemma addRoles_unfold:
  assumes "is_role_map (getp field ''roles'')"
      and "r0 = (case getp field ''roles'' of VObj r \<Rightarrow> r | _ \<Rightarrow> [])"
      and "own = (if truthy (getp r0 digId) then getp r0 digId else VArr [])"
      and "e = (getp field ''roles'' \<noteq> VUndef)"
  shows "addRoles digId nr field =
           Some (role_step digId nr e
                   (role_step digId nr e (setp field ''roles'' (VObj (setp r0 digId own)), [])
                      ''institution_role'')
                   ''person_role'')"
proof (cases "getp field ''roles''")
  case VUndef
  then show ?thesis
    unfolding assms(2-4)
    by (simp add: addRoles_def Let_def roles_get_def roles_set_def getp_setp setp_setp)
next
  case (VObj r)
  then show ?thesis
    unfolding assms(2-4)
    by (simp add: addRoles_def Let_def roles_get_def roles_set_def)
qed (use assms(1) in simp_all)

lemma addRoles_spec:
  assumes a: "addRoles digId nr field = Some fe" and m: "is_role_map (getp field ''roles'')"
  shows "\<exists>r3. getp (fst fe) ''roles'' = VObj r3
           \<and> (\<forall>q. q \<noteq> digId \<longrightarrow>
                 map_of r3 q = map_of (case getp field ''roles'' of VObj r \<Rightarrow> r | _ \<Rightarrow> []) q)
           \<and> truthy (getp r3 digId)
           \<and> (has_role_field (getp field) \<longrightarrow>
                (\<exists>ys. getp r3 digId = VArr ys \<and> distinct (filter primitive ys)))
           \<and> (roles_wellformed digId (getp field ''roles'') \<longrightarrow> (\<exists>ys. getp r3 digId = VArr ys))"
proof -
  define r0 where "r0 = (case getp field ''roles'' of VObj r \<Rightarrow> r | _ \<Rightarrow> [])"
  define own where "own = (if truthy (getp r0 digId) then getp r0 digId else VArr [])"
  define e where "e = (getp field ''roles'' \<noteq> VUndef)"
  define r1 where "r1 = setp r0 digId own"
  define fe1 where "fe1 = (setp field ''roles'' (VObj r1), [] :: doc)"
  define g1 where "g1 = role_step digId nr e fe1 ''institution_role''"
  define g2 where "g2 = role_step digId nr e g1 ''person_role''"
  have fe: "fe = g2"
    using a addRoles_unfold [OF m r0_def own_def e_def, of nr]
    by (simp add: g2_def g1_def fe1_def r1_def)
  have own_t: "truthy own" by (simp add: own_def)
  have own_wf: "\<exists>ys. own = VArr ys" if "roles_wellformed digId (getp field ''roles'')"
  proof (cases "getp field ''roles''")
    case VUndef
    then show ?thesis by (simp add: own_def r0_def getp_def)
  next
    case (VObj r)
    then show ?thesis using that
      by (cases "getp r digId") (auto simp: own_def r0_def)
  qed (use that in simp_all)
  have f1: "getp (fst fe1) ''roles'' = VObj r1" by (simp add: fe1_def getp_setp)
  have o1: "\<forall>q. q \<noteq> digId \<longrightarrow> map_of r1 q = map_of r0 q" by (simp add: r1_def map_of_setp)
  have e1: "getp r1 digId = own" by (simp add: r1_def getp_setp)
  have i1: "getp (fst fe1) ''institution_role'' = getp field ''institution_role''"
    by (simp add: fe1_def getp_setp)
  have p1: "getp (fst g1) ''person_role'' = getp field ''person_role''"
    by (simp add: g1_def fe1_def getp_def role_step_other map_of_setp)
  from role_step_roles [OF f1, of "''institution_role''" digId nr e, folded g1_def]
  obtain r2 where r2: "getp (fst g1) ''roles'' = VObj r2"
    "\<forall>q. q \<noteq> digId \<longrightarrow> map_of r2 q = map_of r1 q"
    "if truthy (getp field ''institution_role'')
     then (\<exists>ys. getp r2 digId = VArr (from_Set ys)) else getp r2 digId = getp r1 digId"
    unfolding i1 by auto
  from role_step_roles [OF r2(1), of "''person_role''" digId nr e, folded g2_def]
  obtain r3 where r3: "getp (fst g2) ''roles'' = VObj r3"
    "\<forall>q. q \<noteq> digId \<longrightarrow> map_of r3 q = map_of r2 q"
    "if truthy (getp field ''person_role'')
     then (\<exists>ys. getp r3 digId = VArr (from_Set ys)) else getp r3 digId = getp r2 digId"
    unfolding p1 by auto
  have others: "\<forall>q. q \<noteq> digId \<longrightarrow> map_of r3 q = map_of r0 q"
    using o1 r2(2) r3(2) by simp
  have entry: "(\<exists>ys. getp r3 digId = VArr (from_Set ys)) \<or> getp r3 digId = own"
    using r2(3) r3(3) e1
    by (cases "truthy (getp field ''person_role'')"; cases "truthy (getp field ''institution_role'')")
       auto
  have t: "truthy (getp r3 digId)" using entry own_t by auto
  have d: "\<exists>ys. getp r3 digId = VArr ys \<and> distinct (filter primitive ys)"
    if "has_role_field (getp field)"
  proof -
    have "\<exists>ys. getp r3 digId = VArr (from_Set ys)"
      using that r2(3) r3(3)
      by (cases "truthy (getp field ''person_role'')") (auto simp: has_role_field_def)
    then show ?thesis using from_Set_distinct by auto
  qed
  have w: "\<exists>ys. getp r3 digId = VArr ys" if "roles_wellformed digId (getp field ''roles'')"
    using entry own_wf [OF that] by auto
  show ?thesis
    unfolding fe using r3(1) others t d w
    by (intro exI [of _ r3]) (simp add: r0_def)
qed

lemma addRoles_fields:
  assumes "addRoles digId nr field = Some fe"
  shows "(k \<notin> {''roles'', ''institution_role'', ''person_role''} \<longrightarrow>
            map_of (fst fe) k = map_of field k)
       \<and> (p \<in> {''institution_role'', ''person_role''} \<longrightarrow>
            map_of (fst fe) p = (if truthy (getp field p) then Some (VArr []) else map_of field p))
       \<and> (wf_doc field \<longrightarrow> wf_doc (fst fe))"
proof -
  define e where "e = (getp field ''roles'' \<noteq> VUndef)"
  define field0 where "field0 = (if e then field else setp field ''roles'' (VObj []))"
  define own where "own = roles_get (field0, []) digId"
  define fe1 where "fe1 = roles_set (field0, []) digId (if truthy own then own else VArr [])"
  define g1 where "g1 = role_step digId nr e fe1 ''institution_role''"
  define g2 where "g2 = role_step digId nr e g1 ''person_role''"
  have fe: "fe = g2"
    using assms
    by (simp add: addRoles_def Let_def g2_def g1_def fe1_def own_def field0_def e_def
        split: if_splits)
  have k0: "map_of field0 k = map_of field k" if "k \<noteq> ''roles''" for k
    using that by (simp add: field0_def map_of_setp)
  have k1: "map_of (fst fe1) k = map_of field k" if "k \<noteq> ''roles''" for k
    using that k0 by (simp add: fe1_def roles_set_other)
  have g1i: "map_of (fst g1) ''institution_role'' =
       (if truthy (getp field ''institution_role'') then Some (VArr [])
        else map_of field ''institution_role'')"
    unfolding g1_def role_step_field using k1 [of "''institution_role''"]
    by (simp add: getp_def)
  have g1p: "map_of (fst g1) ''person_role'' = map_of field ''person_role''"
    unfolding g1_def using k1 [of "''person_role''"] by (simp add: role_step_other)
  have g2p: "map_of (fst g2) ''person_role'' =
       (if truthy (getp field ''person_role'') then Some (VArr [])
        else map_of field ''person_role'')"
    unfolding g2_def role_step_field using g1p by (simp add: getp_def)
  have g2i: "map_of (fst g2) ''institution_role'' =
       (if truthy (getp field ''institution_role'') then Some (VArr [])
        else map_of field ''institution_role'')"
    unfolding g2_def using g1i by (simp add: role_step_other)
  have other: "map_of (fst g2) k = map_of field k"
    if "k \<notin> {''roles'', ''institution_role'', ''person_role''}"
    using that k1 [of k] by (simp add: g2_def g1_def role_step_other)
  have wf: "wf_doc (fst g2)" if "wf_doc field"
  proof -
    have "wf_doc field0" using that by (simp add: field0_def wf_setp)
    then have "wf_doc (fst fe1)" by (simp add: fe1_def wf_roles_set)
    then show ?thesis by (simp add: g2_def g1_def wf_role_step)
  qed
  show ?thesis
    unfolding fe using other g2i g2p wf by auto
qed



lemma wf_dropNullRoles:
  "dropNullRoles digId fe = Some fe' \<Longrightarrow> wf_doc (fst fe) \<Longrightarrow> wf_doc (fst fe')"
  by (auto simp: dropNullRoles_def wf_roles_set split: val.splits if_splits)

lemma dropNullRoles_obj:
  assumes "dropNullRoles digId fe = Some fe'" "getp (fst fe) ''roles'' = VObj r"
  shows "\<exists>r'. getp (fst fe') ''roles'' = VObj r'
           \<and> (\<forall>q. q \<noteq> digId \<longrightarrow> map_of r' q = map_of r q)
           \<and> (if truthy (getp r digId)
              then (\<exists>xs. getp r digId = VArr xs \<and> getp r' digId = VArr (filter truthy xs))
              else r' = r)"
proof (cases "truthy (getp r digId)")
  case False
  then have "fe' = fe"
    using assms by (simp add: dropNullRoles_def roles_get_obj [OF assms(2)])
  then show ?thesis using False assms(2) by simp
next
  case True
  then obtain xs where xs: "getp r digId = VArr xs"
    using assms by (cases "getp r digId")
      (simp_all add: dropNullRoles_def roles_get_obj [OF assms(2)])
  have "fe' = (setp (fst fe) ''roles'' (VObj (setp r digId (VArr (filter truthy xs)))), snd fe)"
    using assms True xs
    by (simp add: dropNullRoles_def roles_get_obj [OF assms(2)] roles_set_obj [OF assms(2)])
  then show ?thesis
    using True xs
    by (intro exI [of _ "setp r digId (VArr (filter truthy xs))"])
       (simp add: getp_setp map_of_setp)
qed

lemma dropNullRoles_keeps:
  assumes "dropNullRoles digId (field, []) = Some fe'" "\<forall>r. getp field ''roles'' \<noteq> VObj r"
  shows "fst fe' = field"
  using assms
  by (cases "getp field ''roles''")
     (auto simp: dropNullRoles_def roles_get_def getp_def split: if_splits)


subsection \<open>The two role passes together\<close>


lemma wf_process:
  assumes "process coll digId nr field = Some f3" "wf_doc field"
  shows "wf_doc f3"
proof (cases "coll \<in> set [''person'', ''institution'']")
  case True
  with assms(1) obtain fe2 fe3 where
    a: "addRoles digId nr field = Some fe2" and d: "dropNullRoles digId fe2 = Some fe3"
    and f: "f3 = fst fe3"
    by (auto simp: process_def split: option.splits)
  have "wf_doc (fst fe2)" using addRoles_fields [OF a] assms(2) by simp
  from wf_dropNullRoles [OF d this] show ?thesis unfolding f .
next
  case False
  with assms(1) obtain fe3 where d: "dropNullRoles digId (field, []) = Some fe3"
    and f: "f3 = fst fe3"
    by (auto simp: process_def split: option.splits)
  from wf_dropNullRoles [OF d] assms(2) show ?thesis unfolding f by simp
qed


lemma process_roles:
  assumes p: "process coll digId nr field = Some f3"
      and c: "coll \<in> set [''person'', ''institution'']"
      and m: "is_role_map (getp field ''roles'')"
  shows "\<exists>rm zs. getp f3 ''roles'' = VObj rm \<and> getp rm digId = VArr zs \<and> list_all truthy zs
           \<and> (has_role_field (getp field) \<longrightarrow> distinct (filter primitive zs))"
proof -
  from p c obtain fe2 fe3 where
    a: "addRoles digId nr field = Some fe2" and d: "dropNullRoles digId fe2 = Some fe3"
    and f: "f3 = fst fe3"
    by (auto simp: process_def split: option.splits)
  from addRoles_spec [OF a m] obtain r3 where
    r3: "getp (fst fe2) ''roles'' = VObj r3" "truthy (getp r3 digId)"
    "has_role_field (getp field) \<longrightarrow> (\<exists>ys. getp r3 digId = VArr ys \<and> distinct (filter primitive ys))"
    by blast
  from dropNullRoles_obj [OF d r3(1)] r3(2) obtain r' xs where
    r': "getp (fst fe3) ''roles'' = VObj r'" "getp r3 digId = VArr xs"
    "getp r' digId = VArr (filter truthy xs)"
    by auto
  have sw: "filter primitive (filter truthy xs) = filter truthy (filter primitive xs)"
    by (induction xs) auto
  have "distinct (filter primitive (filter truthy xs))" if "has_role_field (getp field)"
    unfolding sw using that r3(3) r'(2) distinct_filter [of "filter primitive xs" truthy]
    by auto
  then show ?thesis
    unfolding f using r'(1,3)
    by (intro exI [of _ r'] exI [of _ "filter truthy xs"]) (simp add: list_all_iff)
qed



subsection \<open>One call of the normalizer\<close>

lemma body_unfold:
  "addAndGetId_body st digId field coll nr =
     (case process coll digId nr
             (if ObjectId_isValid (getp field ''_id'')
              then loadExisting (objects st coll)
                     (fst (chooseId (getp field ''_id'') (counter st))) field
              else field) of
        None \<Rightarrow> None
      | Some f3 \<Rightarrow>
          Some (st\<lparr>counter := snd (chooseId (getp field ''_id'') (counter st)),
                   objects := (objects st)
                     (coll := upsert (objects st coll)
                                (fst (chooseId (getp field ''_id'') (counter st)))
                                (delp f3 ''_id''))\<rparr>,
                ref (fst (chooseId (getp field ''_id'') (counter st)))))"
  by (simp add: addAndGetId_body_def process_def Let_def split_beta split: option.splits)

lemma body_result:
  assumes run: "addAndGetId_body st digId field coll nr = Some (st', r)"
      and h: "h = fst (chooseId (getp field ''_id'') (counter st))"
  shows "\<exists>f3. process coll digId nr
                 (if ObjectId_isValid (getp field ''_id'')
                  then loadExisting (objects st coll) h field else field) = Some f3
           \<and> r = VObj [(''_id'', VId h)]
           \<and> counter st' = snd (chooseId (getp field ''_id'') (counter st))
           \<and> accounts st' = accounts st
           \<and> (\<forall>c. c \<noteq> coll \<longrightarrow> objects st' c = objects st c)
           \<and> objects st' coll = upsert (objects st coll) h (delp f3 ''_id'')"
proof -
  from run obtain f3 where
    p: "process coll digId nr
          (if ObjectId_isValid (getp field ''_id'')
           then loadExisting (objects st coll) h field else field) = Some f3"
    unfolding body_unfold h by (auto split: option.splits)
  have s: "st' = st\<lparr>counter := snd (chooseId (getp field ''_id'') (counter st)),
                   objects := (objects st)
                     (coll := upsert (objects st coll) h (delp f3 ''_id''))\<rparr>"
    and r: "r = ref h"
    using run p unfolding body_unfold h by simp_all
  show ?thesis
    using p r unfolding s by (intro exI [of _ f3]) (simp add: ref_def)
qed

lemma chooseId_counter: "c \<le> snd (chooseId i c) \<and> snd (chooseId i c) \<le> Suc c"
  by (cases i) (simp_all add: chooseId_def)



lemma body_frame:
  assumes "addAndGetId_body st digId field coll nr = Some (st', r)"
  shows "(\<forall>c. c \<noteq> coll \<longrightarrow> objects st' c = objects st c) \<and> counter st \<le> counter st'
         \<and> accounts st' = accounts st"
  using body_result [OF assms refl] chooseId_counter [of "counter st" "getp field ''_id''"]
  by auto



lemma body_stored:
  assumes run: "addAndGetId_body st digId field coll nr = Some (st', r)"
      and h: "h = fst (chooseId (getp field ''_id'') (counter st))"
  shows "\<exists>f3 d'. process coll digId nr
                 (if ObjectId_isValid (getp field ''_id'')
                  then loadExisting (objects st coll) h field else field) = Some f3
           \<and> findOne (objects st' coll) (VId h) = Some d'
           \<and> d' = (case findOne (objects st coll) (VId h) of
                      Some d \<Rightarrow> spread d (delp f3 ''_id'')
                    | None \<Rightarrow> (''_id'', VId h) # delp f3 ''_id'')"
proof -
  from body_result [OF run h] obtain f3 where
    p: "process coll digId nr
          (if ObjectId_isValid (getp field ''_id'')
           then loadExisting (objects st coll) h field else field) = Some f3"
    and o: "objects st' coll = upsert (objects st coll) h (delp f3 ''_id'')"
    by auto
  show ?thesis
  proof (cases "findOne (objects st coll) (VId h)")
    case None
    then have "findOne (objects st' coll) (VId h) = Some ((''_id'', VId h) # delp f3 ''_id'')"
      unfolding o by (simp add: upsert_fresh findOne_append_last)
    then show ?thesis using p None by simp
  next
    case (Some d)
    from upsert_update [OF Some, of "delp f3 ''_id''"] obtain pre post where
      pp: "findOne pre (VId h) = None"
      "upsert (objects st coll) h (delp f3 ''_id'') = pre @ spread d (delp f3 ''_id'') # post"
      by blast
    have "map_of (spread d (delp f3 ''_id'')) ''_id'' = Some (VId h)"
      using findOne_id [OF Some] keys_delp [of "''_id''" f3]
      by (simp add: map_of_spread_other)
    then have "findOne (objects st' coll) (VId h) = Some (spread d (delp f3 ''_id''))"
      unfolding o pp(2) using pp(1) by (rule findOne_append_first [rotated])
    then show ?thesis using p Some by simp
  qed
qed


subsection \<open>The nested institutions of a person\<close>

lemma nested_frame:
  "nestedInstitutions digId es i st person = Some (st1, p1) \<Longrightarrow> wf_doc person \<Longrightarrow>
   (\<forall>c. c \<noteq> ''institution'' \<longrightarrow> objects st1 c = objects st c) \<and> counter st \<le> counter st1
   \<and> accounts st1 = accounts st
   \<and> wf_doc p1 \<and> (\<forall>k. k \<noteq> ''person_institution_data'' \<longrightarrow> map_of p1 k = map_of person k)"
proof (induction es arbitrary: i st person)
  case Nil
  then show ?case by simp
next
  case (Cons e es)
  from Cons.prems(1) obtain v where v: "read_prop e ''value'' = Some v"
    by (auto split: option.splits)
  show ?case
  proof (cases "v = VStr ''add_new_institution''")
    case False
    then have "nestedInstitutions digId es (Suc i) st person = Some (st1, p1)"
      using Cons.prems(1) v by simp
    from Cons.IH [OF this Cons.prems(2)] show ?thesis .
  next
    case True
    define dv where "dv = getp person ''person_institution_data''"
    have step: "(case data_entry dv i of
               VObj institution \<Rightarrow>
                 (case addAndGetId_body st digId institution ''institution'' VUndef of
                    None \<Rightarrow> None
                  | Some (st', newInst) \<Rightarrow>
                      nestedInstitutions digId es (Suc i) st'
                        (setp person ''person_institution_data'' (data_put dv i newInst)))
             | _ \<Rightarrow> None) = Some (st1, p1)"
      using Cons.prems(1) v True unfolding dv_def by simp
    then obtain institution where inst: "data_entry dv i = VObj institution"
      by (cases "data_entry dv i") simp_all
    from step inst obtain st' newInst where
      b: "addAndGetId_body st digId institution ''institution'' VUndef = Some (st', newInst)"
      by (cases "addAndGetId_body st digId institution ''institution'' VUndef") auto
    from step inst b have
      rest: "nestedInstitutions digId es (Suc i) st'
                   (setp person ''person_institution_data'' (data_put dv i newInst))
                 = Some (st1, p1)"
      by simp
    have w: "wf_doc (setp person ''person_institution_data'' (data_put dv i newInst))"
      using Cons.prems(2) by (rule wf_setp)
    have pi: "c \<noteq> ''institution'' \<Longrightarrow> objects st' c = objects st c" for c
      using body_frame [OF b] by blast
    have cn: "counter st \<le> counter st'" using body_frame [OF b] by blast
    have ac: "accounts st' = accounts st" using body_frame [OF b] by blast
    from Cons.IH [OF rest w] pi cn ac show ?thesis
      by (simp add: map_of_setp)
  qed
qed

lemma addNested_frame:
  "addNestedInstitution st digId person = Some (st1, p1) \<Longrightarrow> wf_doc person \<Longrightarrow>
   (\<forall>c. c \<noteq> ''institution'' \<longrightarrow> objects st1 c = objects st c) \<and> counter st \<le> counter st1
   \<and> accounts st1 = accounts st
   \<and> wf_doc p1 \<and> (\<forall>k. k \<noteq> ''person_institution_data'' \<longrightarrow> map_of p1 k = map_of person k)"
  using nested_frame [of digId _ 0 st person st1 p1]
  by (auto simp: addNestedInstitution_def split: if_splits val.splits)

text \<open>The two stages: the payload as the body receives it.\<close>

lemma addAndGetId_stages:
  assumes run: "addAndGetId st digId payload coll nr = Some (st', r)" and wf: "wf_doc payload"
  shows "\<exists>st1 field. addAndGetId_body st1 digId field coll nr = Some (st', r)
           \<and> objects st1 coll = objects st coll \<and> counter st \<le> counter st1
           \<and> accounts st1 = accounts st
           \<and> (\<forall>c. c \<noteq> ''institution'' \<longrightarrow> objects st1 c = objects st c)
           \<and> wf_doc field
           \<and> (\<forall>k. k \<noteq> ''person_institution_data'' \<longrightarrow> map_of field k = map_of payload k)
           \<and> (coll \<noteq> ''person'' \<longrightarrow> field = payload \<and> st1 = st)"
proof (cases "coll = ''person''")
  case False
  then have "addAndGetId_body st digId payload coll nr = Some (st', r)"
    using run by (simp add: addAndGetId_def)
  then show ?thesis
    using wf by (intro exI [of _ st] exI [of _ payload]) simp
next
  case True
  from run True have
    c: "(case addNestedInstitution st digId payload of
          None \<Rightarrow> None
        | Some (st1, field) \<Rightarrow> addAndGetId_body st1 digId field coll nr) = Some (st', r)"
    unfolding addAndGetId_def by simp
  then obtain st1 field where
    n: "addNestedInstitution st digId payload = Some (st1, field)"
    by (cases "addNestedInstitution st digId payload") auto
  with c have b: "addAndGetId_body st1 digId field coll nr = Some (st', r)"
    by simp
  note fr = addNested_frame [OF n wf]
  have o: "objects st1 coll = objects st coll" using fr True by simp
  have c1: "counter st \<le> counter st1" using fr by simp
  have a1: "accounts st1 = accounts st" using fr by simp
  have f1: "\<forall>c. c \<noteq> ''institution'' \<longrightarrow> objects st1 c = objects st c" using fr by simp
  have w1: "wf_doc field" using fr by simp
  have s1: "\<forall>k. k \<noteq> ''person_institution_data'' \<longrightarrow> map_of field k = map_of payload k"
    using fr by simp
  show ?thesis
    using b o c1 a1 f1 w1 s1 True by (intro exI [of _ st1] exI [of _ field]) simp
qed

lemma getp_eq: "map_of a k = map_of b k \<Longrightarrow> getp a k = getp b k"
  by (simp add: getp_def)

lemma shallow_merge_eq: "map_of a k = map_of b k \<Longrightarrow> shallow_merge d a k = shallow_merge d b k"
  by (simp add: shallow_merge_def)


subsection \<open>Reference or create\<close>








lemma ada_array_run:
  "map_option (\<lambda>p. (objects (fst p) ''person'', snd p))
     (addAndGetId empty_store owner1 ada_with_array ''person'' VUndef)
   = Some ([[(''_id'', VId ''000000000000000000000000''), (''name'', VStr ''Ada''),
             (''roles'', VArr []), (''person_role'', VArr [])]],
           VObj [(''_id'', VId ''000000000000000000000000'')])"
  by code_simp

lemmas normalizer_defs =
  addAndGetId_def addNestedInstitution_def addAndGetId_body_def chooseId_def loadExisting_def
  addRoles_def role_step_def dropNullRoles_def roles_get_def roles_set_def upsert_def delp_def
  spread_def getp_def findOne_def from_Set_def same_value_def ref_def Let_def

lemma scen2:
  assumes "A \<noteq> []" "B \<noteq> []" "O1 \<noteq> O2"
  shows "map_option (\<lambda>p. (objects (fst p) ''person'', snd p)) (role_scenario A B O1 O2 2)
         = Some ([[(''_id'', VId (mint 0)), (''name'', VStr ''Ada''), (''person_role'', VArr []),
                   (''roles'', VObj [(O1, VArr [VStr A]), (O2, VArr [VStr B])])]],
                 VObj [(''_id'', VId (mint 0))])"
  using assms
  by (simp add: role_scenario_def then_person_def normalizer_defs empty_store_def)

lemma scen3:
  assumes "A \<noteq> []" "B \<noteq> []" "O1 \<noteq> O2"
  shows "map_option (\<lambda>p. (objects (fst p) ''person'', snd p)) (role_scenario A B O1 O2 3)
         = Some ([[(''_id'', VId (mint 0)), (''name'', VStr ''Ada''), (''person_role'', VArr []),
                   (''roles'', VObj [(O1, VArr [VStr A]), (O2, VArr [VStr B])])]],
                 VObj [(''_id'', VId (mint 0))])"
  using assms
  by (simp add: role_scenario_def then_person_def normalizer_defs empty_store_def)

subsection \<open>The role map of the stored entity\<close>

lemma shallow_merge_empty: "shallow_merge [] b k = getp b k"
  by (simp add: shallow_merge_def getp_def split: option.splits)

lemma wf_loadExisting:
  "wf_doc field \<Longrightarrow> \<forall>d \<in> set ds. wf_doc d \<Longrightarrow> wf_doc (loadExisting ds h field)"
  by (auto simp: loadExisting_def findOne_def wf_spread find_Some_iff split: option.splits)

lemma addAndGetId_roles_entry:
  assumes coll: "coll \<in> set [''person'', ''institution'']"
      and wf: "wf_doc payload" "\<forall>d \<in> set (objects st coll). wf_doc d"
      and run: "addAndGetId st digId payload coll nr = Some (st', r)"
  shows "\<exists>h d'. r = VObj [(''_id'', VId h)] \<and> findOne (objects st' coll) (VId h) = Some d'
           \<and> (is_role_map (shallow_merge (entity_before st coll payload h) payload ''roles'') \<longrightarrow>
                (\<exists>rm zs. getp d' ''roles'' = VObj rm \<and> getp rm digId = VArr zs
                   \<and> list_all truthy zs
                   \<and> (has_role_field (shallow_merge (entity_before st coll payload h) payload)
                        \<longrightarrow> distinct (filter primitive zs))))"
proof -
  from addAndGetId_stages [OF run wf(1)] obtain st1 field where
    b: "addAndGetId_body st1 digId field coll nr = Some (st', r)"
    and o: "objects st1 coll = objects st coll" and wfield: "wf_doc field"
    and same: "\<forall>k. k \<noteq> ''person_institution_data'' \<longrightarrow> map_of field k = map_of payload k"
    by blast
  define h where "h = fst (chooseId (getp field ''_id'') (counter st1))"
  let ?E = "entity_before st coll payload h"
  let ?loaded = "if ObjectId_isValid (getp field ''_id'')
                 then loadExisting (objects st1 coll) h field else field"
  have r: "r = VObj [(''_id'', VId h)]" using body_result [OF b h_def] by blast
  from body_stored [OF b h_def] obtain f3 d' where
    p: "process coll digId nr ?loaded = Some f3"
    and f: "findOne (objects st' coll) (VId h) = Some d'"
    and d': "d' = (case findOne (objects st1 coll) (VId h) of
                      Some d \<Rightarrow> spread d (delp f3 ''_id'')
                    | None \<Rightarrow> (''_id'', VId h) # delp f3 ''_id'')"
    by blast
  have i: "getp field ''_id'' = getp payload ''_id''"
    using same by (intro getp_eq) simp
  have w2: "\<forall>d \<in> set (objects st1 coll). wf_doc d" using wf(2) o by simp
  have wl: "wf_doc ?loaded" using wfield w2 by (simp add: wf_loadExisting)
  have w3: "wf_doc f3" using p wl by (rule wf_process)
  have g: "getp ?loaded k = shallow_merge ?E payload k" if "k \<noteq> ''person_institution_data''" for k
  proof -
    have e: "map_of field k = map_of payload k" using same that by simp
    show ?thesis
    proof (cases "ObjectId_isValid (getp payload ''_id'')")
      case False
      then show ?thesis
        using i getp_eq [OF e] by (simp add: entity_before_def shallow_merge_empty)
    next
      case True
      show ?thesis
      proof (cases "findOne (objects st coll) (VId h)")
        case None
        then show ?thesis
          using True i o getp_eq [OF e]
          by (simp add: entity_before_def shallow_merge_empty loadExisting_def)
      next
        case (Some d)
        then show ?thesis
          using True i o shallow_merge_eq [OF e, of d] wfield
          by (simp add: entity_before_def loadExisting_def getp_spread)
      qed
    qed
  qed
  have hr: "has_role_field (getp ?loaded) = has_role_field (shallow_merge ?E payload)"
    unfolding has_role_field_def using g by simp
  have main: "\<exists>rm zs. getp d' ''roles'' = VObj rm \<and> getp rm digId = VArr zs
                   \<and> list_all truthy zs
                   \<and> (has_role_field (shallow_merge ?E payload) \<longrightarrow> distinct (filter primitive zs))"
    if m: "is_role_map (shallow_merge ?E payload ''roles'')"
  proof -
    have "is_role_map (getp ?loaded ''roles'')" using m g [of "''roles''"] by simp
    from process_roles [OF p coll this] obtain rm zs where
      z: "getp f3 ''roles'' = VObj rm" "getp rm digId = VArr zs" "list_all truthy zs"
      "has_role_field (getp ?loaded) \<longrightarrow> distinct (filter primitive zs)"
      by blast
    have m3: "map_of f3 ''roles'' = Some (VObj rm)"
      using z(1) by (auto simp: getp_def split: option.splits)
    have "map_of d' ''roles'' = Some (VObj rm)"
    proof (cases "findOne (objects st1 coll) (VId h)")
      case None
      then show ?thesis using m3 by (simp add: d' map_of_delp)
    next
      case (Some d)
      have "map_of (spread d (delp f3 ''_id'')) = map_of d ++ map_of (delp f3 ''_id'')"
        using wf_delp [OF w3] by (simp add: map_of_spread wf_doc_def)
      then show ?thesis using Some m3 by (simp add: d' map_of_delp)
    qed
    then have "getp d' ''roles'' = VObj rm" by (simp add: getp_def)
    then show ?thesis
      using z(2,3,4) unfolding hr by (intro exI [of _ rm] exI [of _ zs]) simp
  qed
  show ?thesis
    using r f main by (intro exI [of _ h] exI [of _ d']) simp
qed

text \<open>
  C2, as the source has it. After a person or institution normalization that returns,
  when the role map of the merged entity (the payload written over the stored entity) is
  absent or a plain object, the stored entity's \<open>roles[ownerId]\<close> is an array with no
  falsy entry; when a role field (\<open>institution_role\<close>, \<open>person_role\<close>) is present on the
  merged entity, no primitive role tag occurs twice in it. Submitting a new person with
  role \<open>A\<close> for owner \<open>O1\<close> and then referencing it with role \<open>B\<close> for owner \<open>O2\<close>
  yields \<open>roles = {O1: [A], O2: [B]}\<close>, and submitting role \<open>A\<close> for \<open>O1\<close> again changes
  nothing.
\<close>

theorem addAndGetId_roles:
  "(coll \<in> set [''person'', ''institution''] \<and> wf_doc payload
      \<and> list_all wf_doc (objects st coll)
      \<and> addAndGetId st digId payload coll nr = Some (st', r) \<longrightarrow>
      (\<exists>h d'. r = VObj [(''_id'', VId h)] \<and> findOne (objects st' coll) (VId h) = Some d'
           \<and> (is_role_map (shallow_merge (entity_before st coll payload h) payload ''roles'') \<longrightarrow>
                (\<exists>rm zs. getp d' ''roles'' = VObj rm \<and> getp rm digId = VArr zs
                   \<and> list_all truthy zs
                   \<and> (has_role_field (shallow_merge (entity_before st coll payload h) payload)
                        \<longrightarrow> distinct (filter primitive zs))))))
   \<and> (A \<noteq> [] \<and> B \<noteq> [] \<and> O1 \<noteq> O2 \<longrightarrow>
        map_option (\<lambda>p. (objects (fst p) ''person'', snd p)) (role_scenario A B O1 O2 2)
          = Some ([[(''_id'', VId (mint 0)), (''name'', VStr ''Ada''), (''person_role'', VArr []),
                    (''roles'', VObj [(O1, VArr [VStr A]), (O2, VArr [VStr B])])]],
                  VObj [(''_id'', VId (mint 0))])
        \<and> map_option (\<lambda>p. (objects (fst p) ''person'', snd p)) (role_scenario A B O1 O2 3)
          = Some ([[(''_id'', VId (mint 0)), (''name'', VStr ''Ada''), (''person_role'', VArr []),
                    (''roles'', VObj [(O1, VArr [VStr A]), (O2, VArr [VStr B])])]],
                  VObj [(''_id'', VId (mint 0))]))"
proof -
  have g: "\<exists>h d'. r = VObj [(''_id'', VId h)] \<and> findOne (objects st' coll) (VId h) = Some d'
           \<and> (is_role_map (shallow_merge (entity_before st coll payload h) payload ''roles'') \<longrightarrow>
                (\<exists>rm zs. getp d' ''roles'' = VObj rm \<and> getp rm digId = VArr zs
                   \<and> list_all truthy zs
                   \<and> (has_role_field (shallow_merge (entity_before st coll payload h) payload)
                        \<longrightarrow> distinct (filter primitive zs))))"
    if "coll \<in> set [''person'', ''institution'']" "wf_doc payload"
      "list_all wf_doc (objects st coll)"
      "addAndGetId st digId payload coll nr = Some (st', r)"
  proof -
    have s: "\<forall>d \<in> set (objects st coll). wf_doc d" using that(3) by (simp add: list_all_iff)
    show ?thesis by (rule addAndGetId_roles_entry [OF that(1,2) s that(4)])
  qed
  show ?thesis
    using g scen2 [of A B O1 O2] scen3 [of A B O1 O2]
    by (intro conjI impI) (assumption | simp)+
qed

text \<open>
  C2 as stated fails: a person payload that carries its own \<open>roles\<close> map with a repeated
  tag and no role field is stored with the repeated tag.
\<close>

theorem addAndGetId_duplicate_roles_counterexample:
  "map_option (\<lambda>p. (objects (fst p) ''person'', snd p))
     (addAndGetId empty_store owner1 ada_with_roles ''person'' VUndef)
   = Some ([[(''_id'', VId ''000000000000000000000000''), (''name'', VStr ''Ada''),
             (''roles'', VObj [(owner1, VArr [VStr ''A'', VStr ''A''])])]],
           VObj [(''_id'', VId ''000000000000000000000000'')])"
  by code_simp

text \<open>
  When the role map of the payload is an array, the call returns as well: the owner's
  entry is attached to the array in memory only, and the entity is stored with the array
  as it came and no entry for the owner. The hypothesis of the theorem above leaves such
  role maps out.
\<close>

lemma addAndGetId_array_roles:
  "map_option (\<lambda>p. (objects (fst p) ''person'', snd p))
     (addAndGetId empty_store owner1 ada_with_array ''person'' VUndef)
   = Some ([[(''_id'', VId ''000000000000000000000000''), (''name'', VStr ''Ada''),
             (''roles'', VArr []), (''person_role'', VArr [])]],
           VObj [(''_id'', VId ''000000000000000000000000'')])"
  by code_simp

lemma ada_repeated_run:
  "map_option (\<lambda>p. (objects (fst p) ''person'', snd p))
     (addAndGetId empty_store owner1 ada_repeated ''person'' VUndef)
   = Some ([[(''_id'', VId ''000000000000000000000000''), (''name'', VStr ''Ada''),
             (''person_role'', VArr []),
             (''roles'', VObj [(owner1, VArr [VStr ''CREATOR'', VStr ''EDITOR''])])]],
           VObj [(''_id'', VId ''000000000000000000000000'')])"
  by code_simp

lemma ada_repeated_facts:
  "wf_doc ada_repeated
   \<and> list_all wf_doc (objects empty_store ''person'')
   \<and> entity_before empty_store ''person'' ada_repeated ''000000000000000000000000'' = []
   \<and> is_role_map (shallow_merge [] ada_repeated ''roles'')
   \<and> has_role_field (shallow_merge [] ada_repeated)
   \<and> owner1 \<noteq> owner2"
  by code_simp

text \<open>
  A new person submitted with the role list \<open>[CREATOR, null, CREATOR, EDITOR]\<close> is stored
  with \<open>roles[owner] = [CREATOR, EDITOR]\<close>; and the scenario of the claim.
\<close>

theorem addAndGetId_roles_witness:
  "''person'' \<in> set [''person'', ''institution'']
   \<and> wf_doc ada_repeated
   \<and> list_all wf_doc (objects empty_store ''person'')
   \<and> is_role_map (shallow_merge [] ada_repeated ''roles'')
   \<and> has_role_field (shallow_merge [] ada_repeated)
   \<and> (\<exists>st'. addAndGetId empty_store owner1 ada_repeated ''person'' VUndef
               = Some (st', VObj [(''_id'', VId ''000000000000000000000000'')])
         \<and> objects st' ''person''
             = [[(''_id'', VId ''000000000000000000000000''), (''name'', VStr ''Ada''),
                 (''person_role'', VArr []),
                 (''roles'', VObj [(owner1, VArr [VStr ''CREATOR'', VStr ''EDITOR''])])]]
         \<and> (\<exists>d' rm zs. findOne (objects st' ''person'') (VId ''000000000000000000000000'') = Some d'
               \<and> getp d' ''roles'' = VObj rm \<and> getp rm owner1 = VArr zs
               \<and> list_all truthy zs \<and> distinct (filter primitive zs)))
   \<and> ''A'' \<noteq> [] \<and> ''B'' \<noteq> [] \<and> owner1 \<noteq> owner2
   \<and> map_option (\<lambda>p. (objects (fst p) ''person'', snd p)) (role_scenario ''A'' ''B'' owner1 owner2 3)
       = Some ([[(''_id'', VId (mint 0)), (''name'', VStr ''Ada''), (''person_role'', VArr []),
                 (''roles'', VObj [(owner1, VArr [VStr ''A'']), (owner2, VArr [VStr ''B''])])]],
               VObj [(''_id'', VId (mint 0))])"
proof -
  let ?z = "''000000000000000000000000''"
  have c: "''person'' \<in> set [''person'', ''institution'']" by simp
  have w: "wf_doc ada_repeated" and s: "list_all wf_doc (objects empty_store ''person'')"
    and e: "entity_before empty_store ''person'' ada_repeated ?z = []"
    and m: "is_role_map (shallow_merge [] ada_repeated ''roles'')"
    and hf: "has_role_field (shallow_merge [] ada_repeated)"
    and o: "owner1 \<noteq> owner2"
    using ada_repeated_facts by simp_all
  from ada_repeated_run obtain st' where
    run: "addAndGetId empty_store owner1 ada_repeated ''person'' VUndef
          = Some (st', VObj [(''_id'', VId ?z)])"
    and ob: "objects st' ''person''
             = [[(''_id'', VId ?z), (''name'', VStr ''Ada''), (''person_role'', VArr []),
                 (''roles'', VObj [(owner1, VArr [VStr ''CREATOR'', VStr ''EDITOR''])])]]"
    by (cases "addAndGetId empty_store owner1 ada_repeated ''person'' VUndef") auto
  note t = addAndGetId_roles [of "''person''" ada_repeated empty_store owner1 VUndef st'
      "VObj [(''_id'', VId ?z)]" "''A''" "''B''" owner1 owner2]
  from t [THEN conjunct1, rule_format, OF conjI [OF c conjI [OF w conjI [OF s run]]]]
  obtain h' d' where
    r: "VObj [(''_id'', VId ?z)] = VObj [(''_id'', VId h')]"
    and f: "findOne (objects st' ''person'') (VId h') = Some d'"
    and imp: "is_role_map (shallow_merge (entity_before empty_store ''person'' ada_repeated h')
                 ada_repeated ''roles'') \<longrightarrow>
                (\<exists>rm zs. getp d' ''roles'' = VObj rm \<and> getp rm owner1 = VArr zs
                   \<and> list_all truthy zs
                   \<and> (has_role_field (shallow_merge
                          (entity_before empty_store ''person'' ada_repeated h') ada_repeated)
                        \<longrightarrow> distinct (filter primitive zs)))"
    by (elim exE conjE)
  have h0: "h' = ?z" using r by simp
  from imp [unfolded h0 e, rule_format, OF m] obtain rm zs where
    z: "getp d' ''roles'' = VObj rm" "getp rm owner1 = VArr zs" "list_all truthy zs"
    "has_role_field (shallow_merge [] ada_repeated) \<longrightarrow> distinct (filter primitive zs)"
    by (elim exE conjE)
  have di: "distinct (filter primitive zs)" using z(4) hf by (rule mp)
  have a: "\<exists>st'. addAndGetId empty_store owner1 ada_repeated ''person'' VUndef
               = Some (st', VObj [(''_id'', VId ?z)])
         \<and> objects st' ''person''
             = [[(''_id'', VId ?z), (''name'', VStr ''Ada''), (''person_role'', VArr []),
                 (''roles'', VObj [(owner1, VArr [VStr ''CREATOR'', VStr ''EDITOR''])])]]
         \<and> (\<exists>d' rm zs. findOne (objects st' ''person'') (VId ?z) = Some d'
               \<and> getp d' ''roles'' = VObj rm \<and> getp rm owner1 = VArr zs
               \<and> list_all truthy zs \<and> distinct (filter primitive zs))"
    using run ob f [unfolded h0] z(1,2,3) di
    by (intro exI [of _ st'] exI [of _ d'] exI [of _ rm] exI [of _ zs] conjI)
  have n: "''A'' \<noteq> []" "''B'' \<noteq> []" by simp_all
  have sc: "map_option (\<lambda>p. (objects (fst p) ''person'', snd p))
              (role_scenario ''A'' ''B'' owner1 owner2 3)
       = Some ([[(''_id'', VId (mint 0)), (''name'', VStr ''Ada''), (''person_role'', VArr []),
                 (''roles'', VObj [(owner1, VArr [VStr ''A'']), (owner2, VArr [VStr ''B''])])]],
               VObj [(''_id'', VId (mint 0))])"
    using t [THEN conjunct2, rule_format, OF conjI [OF n(1) conjI [OF n(2) o]]] by (rule conjunct2)
  show ?thesis using c w s m hf a n o sc by (intro conjI)
qed

subsection \<open>Samples of reference and creation\<close>



section \<open>Properties of the filtered search\<close>



lemma getNestedValues_total:
  "\<not> nullish v \<Longrightarrow> no_null_items v \<Longrightarrow> getNestedValues I v \<noteq> None"
  "no_null_fields d \<Longrightarrow> nested_fields I d \<noteq> None"
  "no_null_list xs \<Longrightarrow> nested_items I xs \<noteq> None"
  "no_null_items v \<Longrightarrow> nested_prop I v \<noteq> None"
  "no_null_list xs \<Longrightarrow> nested_elems I xs \<noteq> None"
proof (induction I v and I d and I xs and I v and I xs
    rule: getNestedValues_nested_fields_nested_items_nested_prop_nested_elems.induct)
qed (auto simp: nullish_def split: option.splits)







text \<open>
  Lower-casing reaches the letters outside ASCII: a term with a small or a capital
  accented letter finds the title that begins with the capital one.
\<close>

lemma search_accented_letter:
  "searchObjectWithFilter by_shape no_id_text search_store ''tag'' (Some [CHR 0xE9 # ''cole''])
     = Some [VId idC]
   \<and> searchObjectWithFilter by_shape no_id_text search_store ''tag'' (Some [CHR 0xC9 # ''COLE''])
     = Some [VId idC]
   \<and> searchObjectWithFilter by_shape no_id_text search_store ''tag'' (Some [''ecole''])
     = Some []"
  by code_simp

text \<open>An empty filter list selects nothing: the loop that pushes never runs.\<close>

lemma search_empty_terms:
  assumes "searched_documents S st (toLowerCase collection) = Some docs"
      and "list_all (\<lambda>d. no_null_items (VObj d)) docs"
  shows "searchObjectWithFilter S I st collection (Some []) = Some []"
proof -
  have "filterResults I [] docs = Some []"
    using assms(2)
  proof (induction docs)
    case Nil
    then show ?case by simp
  next
    case (Cons d docs)
    then have "getNestedValues I (VObj d) \<noteq> None"
      using getNestedValues_total(1) [of "VObj d" I] by (simp add: nullish_def)
    then obtain vs where vs: "getNestedValues I (VObj d) = Some vs" by auto
    then show ?case
      using Cons unfolding filterResults.simps by (simp add: Let_def del: getNestedValues.simps)
  qed
  then show ?thesis using assms(1) by (simp add: searchObjectWithFilter_def Let_def)
qed

end
